theory Spec2Isabelle
  imports Complex_Main "HOL-Library.AList" "HOL-Library.Sublist"
begin

section \<open>The world the plugin runs in\<close>

text \<open>
  The plugin (\<^verbatim>\<open>src/index.js\<close>) keeps no state of its own besides the object
  \<^verbatim>\<open>{cachePath, ttl}\<close>: everything it remembers is on the file system, in the timers it
  has handed to \<^verbatim>\<open>setTimeout\<close>, and in what it has printed. The model therefore threads one
  explicit \<open>world\<close> through every function.

  A path is the list of its components, so \<^verbatim>\<open>path.join(d, n)\<close> appends a component,
  \<^verbatim>\<open>path.dirname\<close> drops the last one and \<^verbatim>\<open>filename + ".data"\<close> extends the last one.
  (The joined parts are hexadecimal digests, which contain no separator and no dot
  segment, so \<^verbatim>\<open>path.join\<close> has nothing to normalise.)
\<close>

type_synonym bytes = string
type_synonym path = "string list"

definition dirname :: "path \<Rightarrow> path" where
  "dirname p = butlast p"

definition path_join :: "path \<Rightarrow> string \<Rightarrow> path" where
  "path_join d n = d @ [n]"

definition add_ext :: "path \<Rightarrow> string \<Rightarrow> path" where
  "add_ext p e = (case rev p of [] \<Rightarrow> [e] | n # r \<Rightarrow> rev r @ [n @ e])"

datatype errno = ENOENT | EACCES | EISDIR | ENOTDIR | ENOTEMPTY | EEXIST | Z_DATA_ERROR | SyntaxError

record regfile =
  data :: bytes
  mtime :: int

record stats =
  st_mtime :: int
  st_size :: int

record dirent =
  name :: string
  isDirectory :: bool

text \<open>The three callbacks the source passes to \<^verbatim>\<open>setTimeout\<close>, and the lines it logs.\<close>

datatype action = RemoveExpiredCacheUrl string | RemoveExpiredCacheFile path | CleanUpCacheDirectory path

record timer =
  callback :: action
  delay_ms :: rat
  armed_at :: int

datatype logmsg =
    CannotAccessDirectory path errno
  | CannotCreateDirectory path errno
  | CannotWriteFiles path errno
  | ErrorRemovingUrl string errno
  | ErrorRemovingFile path errno
  | ErrorCleaningDirectory path errno
  | RemovingExpired
  | Removed int int int
  | Serving string path
  | Caching string path

text \<open>
  \<open>files\<close> is an association list from paths to regular files and \<open>dirs\<close> lists the
  directories. \<open>refused\<close> lists the paths the operating system will not let this process
  create, overwrite or remove (missing permission, read-only mount): it is what makes a
  system call on an existing path fail. \<open>dir_mtime\<close> is what \<^verbatim>\<open>stat\<close> reports for a
  directory. \<open>now\<close> is the clock in milliseconds, as \<^verbatim>\<open>new Date()\<close> reads it. A file
  written at \<open>now\<close> gets that modification time, and the clock has moved on by
  \<open>write_ms\<close> when the write returns: the two files of an entry are written by two calls,
  one after the other, so their modification times differ by that much.
\<close>

record world =
  files :: "(path \<times> regfile) list"
  dirs :: "path list"
  refused :: "path list"
  dir_mtime :: "path \<Rightarrow> int"
  now :: int
  write_ms :: int
  timers :: "timer list"
  logs :: "logmsg list"

section \<open>Promises\<close>

text \<open>
  An \<^verbatim>\<open>async\<close> function takes the world and gives back the changed world together with
  either the error its promise rejects with (\<open>Inl\<close>) or the value it resolves to
  (\<open>Inr\<close>). \<open>await\<close> sequences two of them and passes a rejection on; \<open>try_catch\<close> is the
  source's \<^verbatim>\<open>try { ... } catch (error) { ... }\<close>. What a rejected call has already done
  to the world stays done.
\<close>

type_synonym 'a promise = "world \<Rightarrow> (errno + 'a) \<times> world"

definition resolve :: "'a \<Rightarrow> 'a promise" where
  "resolve x w = (Inr x, w)"

definition await :: "'a promise \<Rightarrow> ('a \<Rightarrow> 'b promise) \<Rightarrow> 'b promise" where
  "await m f w = (case m w of (Inl e, w') \<Rightarrow> (Inl e, w') | (Inr x, w') \<Rightarrow> f x w')"

definition try_catch :: "'a promise \<Rightarrow> (errno \<Rightarrow> 'a promise) \<Rightarrow> 'a promise" where
  "try_catch m h w = (case m w of (Inl e, w') \<Rightarrow> h e w' | (Inr x, w') \<Rightarrow> (Inr x, w'))"

definition log_msg :: "logmsg \<Rightarrow> unit promise" where
  "log_msg m w = (Inr (), w\<lparr>logs := logs w @ [m]\<rparr>)"

text \<open>
  Node keeps a timer's delay only if it lies between 1 and \<open>TIMEOUT_MAX\<close> = 2147483647
  milliseconds; any other delay becomes 1 ms. \<^verbatim>\<open>setTimeout\<close> records the timer with the
  delay Node will use; its callback runs when that time has passed (\<open>elapse\<close>, below).
\<close>

definition TIMEOUT_MAX :: rat where
  "TIMEOUT_MAX = 2147483647"

definition timer_delay :: "rat \<Rightarrow> rat" where
  "timer_delay ms = (if 1 \<le> ms \<and> ms \<le> TIMEOUT_MAX then ms else 1)"

definition setTimeout :: "action \<Rightarrow> rat \<Rightarrow> unit promise" where
  "setTimeout a ms w =
     (Inr (), w\<lparr>timers := timers w @
                 [\<lparr>callback = a, delay_ms = timer_delay ms, armed_at = now w\<rparr>]\<rparr>)"

section \<open>The file system calls the plugin makes\<close>

definition is_file :: "world \<Rightarrow> path \<Rightarrow> bool" where
  "is_file w p = (map_of (files w) p \<noteq> None)"

definition is_dir :: "world \<Rightarrow> path \<Rightarrow> bool" where
  "is_dir w p = (p \<in> set (dirs w))"

text \<open>
  The listing of a directory, as \<^verbatim>\<open>readdir(d, {withFileTypes: true})\<close> returns it. The
  order of a listing is the operating system's; here the files come first.
\<close>

definition children :: "world \<Rightarrow> path \<Rightarrow> dirent list" where
  "children w d =
     map (\<lambda>p. \<lparr>name = last p, isDirectory = False\<rparr>)
         (filter (\<lambda>p. p \<noteq> [] \<and> butlast p = d) (map fst (files w))) @
     map (\<lambda>p. \<lparr>name = last p, isDirectory = True\<rparr>)
         (filter (\<lambda>p. p \<noteq> [] \<and> butlast p = d) (dirs w))"

definition fs_access :: "path \<Rightarrow> unit promise" where
  "fs_access p w = (if is_file w p \<or> is_dir w p then (Inr (), w) else (Inl ENOENT, w))"

definition fs_stat :: "path \<Rightarrow> stats promise" where
  "fs_stat p w =
     (case map_of (files w) p of
        Some f \<Rightarrow> (Inr \<lparr>st_mtime = mtime f, st_size = int (length (data f))\<rparr>, w)
      | None \<Rightarrow>
          if is_dir w p then (Inr \<lparr>st_mtime = dir_mtime w p, st_size = 0\<rparr>, w)
          else (Inl ENOENT, w))"

definition fs_readFile :: "path \<Rightarrow> bytes promise" where
  "fs_readFile p w =
     (case map_of (files w) p of
        Some f \<Rightarrow> (Inr (data f), w)
      | None \<Rightarrow> if is_dir w p then (Inl EISDIR, w) else (Inl ENOENT, w))"

definition fs_writeFile :: "path \<Rightarrow> bytes \<Rightarrow> unit promise" where
  "fs_writeFile p c w =
     (if is_dir w p then (Inl EISDIR, w)
      else if is_file w (dirname p) then (Inl ENOTDIR, w)
      else if \<not> is_dir w (dirname p) then (Inl ENOENT, w)
      else if p \<in> set (refused w) then (Inl EACCES, w)
      else (Inr (), w\<lparr>files := AList.update p \<lparr>data = c, mtime = now w\<rparr> (files w),
                     now := now w + write_ms w\<rparr>))"

definition fs_unlink :: "path \<Rightarrow> unit promise" where
  "fs_unlink p w =
     (if \<not> is_file w p then (Inl (if is_dir w p then EISDIR else ENOENT), w)
      else if p \<in> set (refused w) then (Inl EACCES, w)
      else (Inr (), w\<lparr>files := AList.delete p (files w)\<rparr>))"

definition fs_readdir :: "path \<Rightarrow> dirent list promise" where
  "fs_readdir d w =
     (if is_dir w d then (Inr (children w d), w)
      else if is_file w d then (Inl ENOTDIR, w)
      else (Inl ENOENT, w))"

definition fs_rmdir :: "path \<Rightarrow> unit promise" where
  "fs_rmdir d w =
     (if is_file w d then (Inl ENOTDIR, w)
      else if \<not> is_dir w d then (Inl ENOENT, w)
      else if children w d \<noteq> [] then (Inl ENOTEMPTY, w)
      else if d \<in> set (refused w) then (Inl EACCES, w)
      else (Inr (), w\<lparr>dirs := removeAll d (dirs w)\<rparr>))"

text \<open>
  \<^verbatim>\<open>mkdir(p, {recursive: true})\<close> walks the prefixes of \<open>p\<close> from the root, skips the
  directories that exist and creates the others; it stops at a prefix that is a file or
  that may not be created.
\<close>

fun mkdirs :: "path list \<Rightarrow> unit promise" where
  "mkdirs [] w = (Inr (), w)"
| "mkdirs (d # ds) w =
     (if is_dir w d then mkdirs ds w
      else if is_file w d then (Inl (if ds = [] then EEXIST else ENOTDIR), w)
      else if d \<in> set (refused w) then (Inl EACCES, w)
      else mkdirs ds (w\<lparr>dirs := dirs w @ [d]\<rparr>))"

definition fs_mkdir_recursive :: "path \<Rightarrow> unit promise" where
  "fs_mkdir_recursive p = mkdirs (prefixes p)"

section \<open>Module constants\<close>

definition CACHE_STATUS_CODES_default :: "int list" where
  "CACHE_STATUS_CODES_default = [200, 301, 302, 303, 304, 307, 308, 404]"

definition nonCacheableHeaders :: "string list" where
  "nonCacheableHeaders =
    [''age'', ''authorization'', ''cf-cache-status'', ''cf-ray'', ''cache-control'',
     ''connection'', ''content-encoding'', ''content-security-policy'', ''cookie'', ''date'',
     ''etag'', ''expect-ct'', ''expires'', ''feature-policy'', ''last-modified'', ''nel'',
     ''proxy-authorization'', ''referrer-policy'', ''report-to'', ''server'', ''set-cookie'',
     ''strict-transport-security'', ''transfer-encoding'', ''vary'', ''via'', ''x-cache'',
     ''x-cache-hit'', ''x-content-type-options'', ''x-correlation-id'', ''x-edge-ip'',
     ''x-edge-location'', ''x-edge-origin-shield-skipped'', ''x-frame-options'',
     ''x-powered-by'', ''x-request-id'']"

text \<open>
  Header names are HTTP tokens, hence ASCII; on ASCII \<^verbatim>\<open>String.prototype.toLowerCase\<close>
  moves \<open>A\<close>..\<open>Z\<close> to \<open>a\<close>..\<open>z\<close> and leaves every other character alone.
\<close>

definition lower_char :: "char \<Rightarrow> char" where
  "lower_char c =
     (case map_of (zip ''ABCDEFGHIJKLMNOPQRSTUVWXYZ'' ''abcdefghijklmnopqrstuvwxyz'') c of
        Some l \<Rightarrow> l
      | None \<Rightarrow> c)"

definition toLowerCase :: "string \<Rightarrow> string" where
  "toLowerCase s = map lower_char s"

definition endsWith :: "string \<Rightarrow> string \<Rightarrow> bool" where
  "endsWith s suf = (length suf \<le> length s \<and> drop (length s - length suf) s = suf)"

section \<open>The libraries the plugin calls\<close>

text \<open>
  \<^verbatim>\<open>crypto\<close>, \<^verbatim>\<open>zlib\<close> and \<^verbatim>\<open>JSON\<close> are not code of this repository. The functions take
  them as the parameter \<open>L\<close>; a theorem that needs one of their laws (that \<^verbatim>\<open>gunzip\<close>
  undoes \<^verbatim>\<open>gzip\<close>, that \<^verbatim>\<open>JSON.parse\<close> undoes \<^verbatim>\<open>JSON.stringify\<close>) states it as a hypothesis.
  \<open>gunzip\<close> and \<open>JSON_parse\<close> throw on input they cannot decode. What \<^verbatim>\<open>JSON.parse\<close> returns
  is taken to be a metadata record, as \<^verbatim>\<open>set\<close> writes it: a \<^verbatim>\<open>.meta\<close> file holding some other
  JSON value is not modelled. A JavaScript object is the list of its entries in the order
  \<^verbatim>\<open>Object.entries\<close> gives them.
\<close>

record metadata =
  statusCode :: int
  headers :: "(string \<times> string) list"

record entry = metadata +
  content :: bytes

record lib =
  sha1_hex :: "string \<Rightarrow> string"
  gzip :: "bytes \<Rightarrow> bytes"
  gunzip :: "bytes \<Rightarrow> errno + bytes"
  JSON_stringify :: "metadata \<Rightarrow> string"
  JSON_parse :: "string \<Rightarrow> errno + metadata"

definition settle :: "errno + 'a \<Rightarrow> 'a promise" where
  "settle r w = (r, w)"

section \<open>Helpers of \<^verbatim>\<open>src/index.js\<close>\<close>

definition ensureDirExists :: "path \<Rightarrow> unit promise" where
  "ensureDirExists dirPath =
     try_catch (fs_access dirPath)
       (\<lambda>_. try_catch (fs_mkdir_recursive dirPath)
               (\<lambda>error. log_msg (CannotAccessDirectory dirPath error)))"

definition removeDirectoryIfEmpty :: "path \<Rightarrow> unit promise" where
  "removeDirectoryIfEmpty dirPath =
     try_catch
       (await (fs_readdir dirPath)
          (\<lambda>files. if length files = 0 then fs_rmdir dirPath else resolve ()))
       (\<lambda>_. resolve ())"

section \<open>\<^verbatim>\<open>class URLFileSystemCache\<close>\<close>

text \<open>
  \<open>ttl\<close> is the number of seconds that \<^verbatim>\<open>CACHE_TTL\<close> denotes. Ages are quotients of
  milliseconds by 1000; the model computes them exactly, in the rationals.
\<close>

record cache =
  cachePath :: path
  ttl :: rat

definition urlHash :: "lib \<Rightarrow> string \<Rightarrow> string" where
  "urlHash L url = sha1_hex L url"

definition filenameForUrl :: "lib \<Rightarrow> cache \<Rightarrow> string \<Rightarrow> path" where
  "filenameForUrl L c url =
     (let h = urlHash L url in path_join (path_join (cachePath c) (take 2 h)) h)"

definition filteredHeaders :: "(string \<times> string) list \<Rightarrow> (string \<times> string) list" where
  "filteredHeaders hs = filter (\<lambda>(key, _). toLowerCase key \<notin> set nonCacheableHeaders) hs"

definition removeExpiredCacheUrl :: "lib \<Rightarrow> cache \<Rightarrow> string \<Rightarrow> unit promise" where
  "removeExpiredCacheUrl L c url =
     (let filename = filenameForUrl L c url in
      try_catch
        (await (fs_unlink (add_ext filename ''.data'')) (\<lambda>_.
         await (fs_unlink (add_ext filename ''.meta'')) (\<lambda>_.
         removeDirectoryIfEmpty (dirname filename))))
        (\<lambda>error. log_msg (ErrorRemovingUrl url error)))"

definition removeExpiredCacheFile :: "path \<Rightarrow> unit promise" where
  "removeExpiredCacheFile filename =
     try_catch
       (await (fs_unlink filename) (\<lambda>_. removeDirectoryIfEmpty (dirname filename)))
       (\<lambda>error. log_msg (ErrorRemovingFile filename error))"

definition set_entry ::
  "lib \<Rightarrow> cache \<Rightarrow> string \<Rightarrow> int \<Rightarrow> (string \<times> string) list \<Rightarrow> bytes \<Rightarrow> unit promise" where
  "set_entry L c url sc hs val =
     (let filename = filenameForUrl L c url;
          compressedValue = gzip L val;
          metadata = \<lparr>statusCode = sc, headers = filteredHeaders hs\<rparr>
      in await
           (try_catch
              (await (ensureDirExists (dirname filename)) (\<lambda>_.
               await (fs_writeFile (add_ext filename ''.data'') compressedValue) (\<lambda>_.
               fs_writeFile (add_ext filename ''.meta'') (JSON_stringify L metadata))))
              (\<lambda>error. log_msg (CannotWriteFiles filename error)))
           (\<lambda>_. setTimeout (RemoveExpiredCacheUrl url) (ttl c * 1000)))"

definition isExpiredBasedOnMtime :: "cache \<Rightarrow> int \<Rightarrow> bool promise" where
  "isExpiredBasedOnMtime c mt w =
     (let lastModificationSeconds = of_int (now w - mt) / (1000 :: rat)
      in (Inr (lastModificationSeconds \<ge> ttl c), w))"

definition isFileExpired :: "cache \<Rightarrow> path \<Rightarrow> bool promise" where
  "isFileExpired c filePath =
     await (fs_stat filePath) (\<lambda>st. isExpiredBasedOnMtime c (st_mtime st))"

text \<open>
  \<^verbatim>\<open>get\<close> returns from inside its first \<^verbatim>\<open>catch\<close>; the model names the outcome of that
  \<^verbatim>\<open>try\<close> (\<open>both\<close>) and branches on it. The two \<^verbatim>\<open>unlink\<close> calls of the expiry branch
  stand outside every \<^verbatim>\<open>try\<close>, as in the source.
\<close>

definition get :: "lib \<Rightarrow> cache \<Rightarrow> string \<Rightarrow> entry option promise" where
  "get L c url =
     (let filename = filenameForUrl L c url in
      await
        (try_catch
           (await (fs_access (add_ext filename ''.data'')) (\<lambda>_.
            await (fs_access (add_ext filename ''.meta'')) (\<lambda>_. resolve True)))
           (\<lambda>_. resolve False))
        (\<lambda>both.
           if \<not> both then resolve None
           else
             await (isFileExpired c (add_ext filename ''.meta'')) (\<lambda>expired.
               if expired then
                 await (fs_unlink (add_ext filename ''.meta'')) (\<lambda>_.
                 await (fs_unlink (add_ext filename ''.data'')) (\<lambda>_.
                 resolve None))
               else
                 try_catch
                   (await (fs_readFile (add_ext filename ''.data'')) (\<lambda>compressedContent.
                    await (settle (gunzip L compressedContent)) (\<lambda>cont.
                    await (fs_readFile (add_ext filename ''.meta'')) (\<lambda>text.
                    await (settle (JSON_parse L text)) (\<lambda>m.
                    resolve (Some \<lparr>statusCode = statusCode m, headers = headers m,
                                    content = cont\<rparr>))))))
                   (\<lambda>_. resolve None))))"

section \<open>The two hooks the plugin exports\<close>

text \<open>
  A request carries what the hooks read: \<^verbatim>\<open>req.method\<close>, \<^verbatim>\<open>req.headers\<close>, the flag
  \<^verbatim>\<open>req.fromCache\<close> and the fields of \<^verbatim>\<open>req.prerender\<close> (\<open>None\<close> where the source guards
  an absent value with \<^verbatim>\<open>||\<close>). A hook ends by calling \<^verbatim>\<open>next()\<close> or \<^verbatim>\<open>res.send\<close>.
\<close>

record request =
  req_method :: string
  req_headers :: "(string \<times> string) list"
  fromCache :: bool
  prerender_url :: string
  prerender_statusCode :: int
  prerender_headers :: "(string \<times> string) list option"
  prerender_content :: "bytes option"

datatype response = Next | Send int "(string \<times> string) list" bytes

record config =
  CACHE_STATUS_CODES :: "int list"
  the_cache :: cache

definition requestReceived :: "lib \<Rightarrow> config \<Rightarrow> request \<Rightarrow> (response \<times> request) promise" where
  "requestReceived L cfg req =
     (if req_method req \<noteq> ''GET'' then resolve (Next, req)
      else if map_of (req_headers req) ''cache-control'' = Some ''no-cache'' then resolve (Next, req)
      else
        await (get L (the_cache cfg) (prerender_url req)) (\<lambda>cachedResponse.
          case cachedResponse of
            None \<Rightarrow> resolve (Next, req)
          | Some e \<Rightarrow>
              await (log_msg (Serving (prerender_url req)
                                (filenameForUrl L (the_cache cfg) (prerender_url req)))) (\<lambda>_.
              resolve (Send (statusCode e) (headers e) (content e), req\<lparr>fromCache := True\<rparr>))))"

definition beforeSend :: "lib \<Rightarrow> config \<Rightarrow> request \<Rightarrow> response promise" where
  "beforeSend L cfg req =
     (if req_method req = ''GET'' \<and> prerender_statusCode req \<in> set (CACHE_STATUS_CODES cfg)
         \<and> \<not> fromCache req
      then
        await (log_msg (Caching (prerender_url req)
                          (filenameForUrl L (the_cache cfg) (prerender_url req)))) (\<lambda>_.
        await (set_entry L (the_cache cfg) (prerender_url req) (prerender_statusCode req)
                 (case prerender_headers req of None \<Rightarrow> [] | Some hs \<Rightarrow> hs)
                 (case prerender_content req of None \<Rightarrow> [] | Some b \<Rightarrow> b)) (\<lambda>_.
        resolve Next))
      else resolve Next)"

section \<open>The sweep over the cache tree\<close>

text \<open>
  \<^verbatim>\<open>cleanUpCacheDirectory\<close> walks the tree with the local recursive function
  \<^verbatim>\<open>processDirectory\<close>, which counts in three variables of the enclosing call. The
  recursion follows the directories it finds on disk, so the model bounds its depth by a
  number \<open>n\<close>: \<open>None\<close> says the bound was too small for the tree. The \<^verbatim>\<open>for\<close> loop over
  the listing is \<open>processEntries\<close>; an exception inside the loop leaves it at once and is
  caught, with the whole body of \<^verbatim>\<open>processDirectory\<close>, by the \<^verbatim>\<open>catch\<close> that logs it.
  The counters and the world travel together as a pair.
\<close>

record totals =
  totalRemovedFiles :: int
  totalRemovedSize :: int
  totalTimersCreated :: int

text \<open>
  The body of the loop for an entry that is not a directory: a file whose name ends in
  \<^verbatim>\<open>.data\<close> or \<^verbatim>\<open>.meta\<close> is removed if its own modification time is expired and gets a
  timer for its remaining time otherwise; any other file is skipped.
\<close>

definition processFile ::
  "cache \<Rightarrow> path \<Rightarrow> dirent \<Rightarrow> totals \<times> world \<Rightarrow> (errno + unit) \<times> totals \<times> world" where
  "processFile c fullPath entry tw =
     (case tw of (t, w) \<Rightarrow>
      if endsWith (name entry) ''.data'' \<or> endsWith (name entry) ''.meta'' then
        (case fs_stat fullPath w of
           (Inl error, w1) \<Rightarrow> (Inl error, t, w1)
         | (Inr st, w1) \<Rightarrow>
             (case isExpiredBasedOnMtime c (st_mtime st) w1 of
                (Inl error, w2) \<Rightarrow> (Inl error, t, w2)
              | (Inr expired, w2) \<Rightarrow>
                  if expired then
                    (case removeExpiredCacheFile fullPath w2 of
                       (Inl error, w3) \<Rightarrow> (Inl error, t, w3)
                     | (Inr _, w3) \<Rightarrow>
                         (Inr (), t\<lparr>totalRemovedFiles := totalRemovedFiles t + 1,
                                    totalRemovedSize := totalRemovedSize t + st_size st\<rparr>, w3))
                  else
                    (let ttlRemaining = ttl c - of_int (now w2 - st_mtime st) / 1000 in
                     case setTimeout (RemoveExpiredCacheFile fullPath) (ttlRemaining * 1000) w2 of
                       (Inl error, w3) \<Rightarrow> (Inl error, t, w3)
                     | (Inr _, w3) \<Rightarrow>
                         (Inr (), t\<lparr>totalTimersCreated := totalTimersCreated t + 1\<rparr>, w3))))
      else (Inr (), t, w))"

fun processDirectory :: "nat \<Rightarrow> cache \<Rightarrow> path \<Rightarrow> totals \<times> world \<Rightarrow> (totals \<times> world) option"
  and processEntries ::
    "nat \<Rightarrow> cache \<Rightarrow> path \<Rightarrow> dirent list \<Rightarrow> totals \<times> world \<Rightarrow> ((errno + unit) \<times> totals \<times> world) option"
where
  "processDirectory 0 c dir tw = None"
| "processDirectory (Suc n) c dir tw =
     (case fs_readdir dir (snd tw) of
        (Inl error, w1) \<Rightarrow> Some (fst tw, snd (log_msg (ErrorCleaningDirectory dir error) w1))
      | (Inr entries, w1) \<Rightarrow>
          (case processEntries n c dir entries (fst tw, w1) of
             None \<Rightarrow> None
           | Some (Inl error, t2, w2) \<Rightarrow>
               Some (t2, snd (log_msg (ErrorCleaningDirectory dir error) w2))
           | Some (Inr _, t2, w2) \<Rightarrow>
               (case removeDirectoryIfEmpty dir w2 of
                  (Inl error, w3) \<Rightarrow>
                    Some (t2, snd (log_msg (ErrorCleaningDirectory dir error) w3))
                | (Inr _, w3) \<Rightarrow> Some (t2, w3))))"
| "processEntries n c dir [] tw = Some (Inr (), tw)"
| "processEntries n c dir (entry # entries) tw =
     (let fullPath = path_join dir (name entry) in
      if isDirectory entry then
        (case processDirectory n c fullPath tw of
           None \<Rightarrow> None
         | Some tw' \<Rightarrow> processEntries n c dir entries tw')
      else
        (case processFile c fullPath entry tw of
           (Inl error, tw') \<Rightarrow> Some (Inl error, tw')
         | (Inr _, tw') \<Rightarrow> processEntries n c dir entries tw'))"

definition cleanUpCacheDirectory :: "nat \<Rightarrow> cache \<Rightarrow> path \<Rightarrow> world \<Rightarrow> (totals \<times> world) option" where
  "cleanUpCacheDirectory n c dirPath w =
     (let t0 = \<lparr>totalRemovedFiles = 0, totalRemovedSize = 0, totalTimersCreated = 0\<rparr>;
          w1 = snd (log_msg RemovingExpired w)
      in case processDirectory n c dirPath (t0, w1) of
           None \<Rightarrow> None
         | Some (t, w2) \<Rightarrow>
             Some (t, snd (log_msg (Removed (totalRemovedFiles t) (totalRemovedSize t)
                                      (totalTimersCreated t)) w2)))"

text \<open>
  The constructor calls \<^verbatim>\<open>startCleanup\<close>: if the cache directory is there, the sweep is
  put on a timer of 0 ms, otherwise the directory is created.
\<close>

definition startCleanup :: "cache \<Rightarrow> unit promise" where
  "startCleanup c =
     try_catch
       (await (fs_access (cachePath c)) (\<lambda>_. setTimeout (CleanUpCacheDirectory (cachePath c)) 0))
       (\<lambda>_. try_catch (fs_mkdir_recursive (cachePath c))
               (\<lambda>error. log_msg (CannotCreateDirectory (cachePath c) error)))"

section \<open>Timers firing\<close>

text \<open>
  A timer is due at \<open>t\<close> when its delay has passed since it was armed; Node then runs its
  callback, at the first millisecond of its clock at or after that moment. The callbacks
  are the three the source arms; the sweep runs with a bound beyond the depth of the tree
  it finds, so it always returns. \<open>elapse L c t\<close> lets the process idle until \<open>t\<close>: the timers
  due by then have run, earliest first and each at its own time, they are gone, and the
  clock reads \<open>t\<close>. A timer armed by one of those callbacks waits for the next \<open>elapse\<close>.
\<close>

definition due_time :: "timer \<Rightarrow> rat" where
  "due_time tm = of_int (armed_at tm) + delay_ms tm"

definition due :: "int \<Rightarrow> timer \<Rightarrow> bool" where
  "due t tm = (due_time tm \<le> of_int t)"

definition tree_bound :: "world \<Rightarrow> nat" where
  "tree_bound w = Suc (fold max (map length (dirs w)) 0)"

definition run_callback :: "lib \<Rightarrow> cache \<Rightarrow> action \<Rightarrow> world \<Rightarrow> world" where
  "run_callback L c a w =
     (case a of
        RemoveExpiredCacheUrl url \<Rightarrow> snd (removeExpiredCacheUrl L c url w)
      | RemoveExpiredCacheFile filename \<Rightarrow> snd (removeExpiredCacheFile filename w)
      | CleanUpCacheDirectory dirPath \<Rightarrow>
          (case cleanUpCacheDirectory (tree_bound w) c dirPath w of
             None \<Rightarrow> w
           | Some (t, w') \<Rightarrow> w'))"

fun fire :: "lib \<Rightarrow> cache \<Rightarrow> timer list \<Rightarrow> world \<Rightarrow> world" where
  "fire L c [] w = w"
| "fire L c (tm # tms) w =
     fire L c tms (run_callback L c (callback tm) (w\<lparr>now := max (now w) \<lceil>due_time tm\<rceil>\<rparr>))"

definition elapse :: "lib \<Rightarrow> cache \<Rightarrow> int \<Rightarrow> world \<Rightarrow> world" where
  "elapse L c t w =
     (fire L c (sort_key due_time (filter (due t) (timers w)))
        (w\<lparr>timers := filter (\<lambda>tm. \<not> due t tm) (timers w)\<rparr>))\<lparr>now := t\<rparr>"

section \<open>A sample installation\<close>

text \<open>
  The examples run the functions on concrete inputs. They use a small stand-in for the
  libraries: it knows the SHA-1 digest of the URL and the JSON text of the two metadata
  records the examples store, and its \<open>gzip\<close> stores the input behind the two magic
  bytes of the format. The cache is the default one (\<^verbatim>\<open>/tmp/prerender-cache\<close>, 86400 s).
\<close>

definition sample_json :: "(metadata \<times> string) list" where
  \<open>sample_json =
    [(\<lparr>statusCode = 200, headers = [(''content-type'', ''text/html'')]\<rparr>,
      ''{"statusCode":200,"headers":{"content-type":"text/html"}}''),
     (\<lparr>statusCode = 200, headers = [(''Content-Type'', ''text/html'')]\<rparr>,
      ''{"statusCode":200,"headers":{"Content-Type":"text/html"}}'')]\<close>

definition sample_lib :: lib where
  "sample_lib =
    \<lparr>sha1_hex = (\<lambda>u. if u = ''http://a'' then ''f7651fae28a41b7d0af3dd8d1af2c3954c097043''
                      else ''da39a3ee5e6b4b0d3255bfef95601890afd80709''),
     gzip = (\<lambda>b. CHR 0x1F # CHR 0x8B # b),
     gunzip = (\<lambda>z. case z of
                      a # b # r \<Rightarrow> if a = CHR 0x1F \<and> b = CHR 0x8B then Inr r else Inl Z_DATA_ERROR
                    | _ \<Rightarrow> Inl Z_DATA_ERROR),
     JSON_stringify = (\<lambda>m. case map_of sample_json m of Some t \<Rightarrow> t | None \<Rightarrow> ''null''),
     JSON_parse = (\<lambda>t. case map_of (map prod.swap sample_json) t of
                          Some m \<Rightarrow> Inr m | None \<Rightarrow> Inl SyntaxError)\<rparr>"

definition sample_cache :: cache where
  "sample_cache = \<lparr>cachePath = [''tmp'', ''prerender-cache''], ttl = 86400\<rparr>"

definition sample_config :: config where
  "sample_config =
    \<lparr>CACHE_STATUS_CODES = CACHE_STATUS_CODES_default, the_cache = sample_cache\<rparr>"

definition sample_file :: path where
  "sample_file = [''tmp'', ''prerender-cache'', ''f7'', ''f7651fae28a41b7d0af3dd8d1af2c3954c097043'']"

definition empty_world :: world where
  "empty_world =
    \<lparr>files = [], dirs = [[], [''tmp''], [''tmp'', ''prerender-cache'']], refused = [],
     dir_mtime = (\<lambda>_. 0), now = 1000000, write_ms = 5, timers = [], logs = []\<rparr>"


definition sample_headers :: "(string \<times> string) list" where
  "sample_headers = [(''content-type'', ''text/html''), (''date'', ''X'')]"

text \<open>The world after \<^verbatim>\<open>set("http://a", 200, {"content-type": "text/html", "date": "X"}, "hi")\<close>.\<close>

definition cached_world :: world where
  "cached_world =
     snd (set_entry sample_lib sample_cache ''http://a'' 200 sample_headers ''hi'' empty_world)"

definition sample_request :: request where
  "sample_request =
    \<lparr>req_method = ''GET'', req_headers = [(''cache-control'', ''no-cache'')], fromCache = False,
     prerender_url = ''http://a'', prerender_statusCode = 200,
     prerender_headers = Some sample_headers, prerender_content = Some ''hi''\<rparr>"

text \<open>
  The same world once the entry's \<^verbatim>\<open>.meta\<close> file is exactly \<open>ttl\<close> seconds old, on a file
  system that lets the process remove it, and on one that does not.
\<close>

definition stale_world :: world where
  "stale_world = cached_world\<lparr>now := 1000005 + 86400000\<rparr>"

definition readonly_stale_world :: world where
  "readonly_stale_world = stale_world\<lparr>refused := [add_ext sample_file ''.meta'']\<rparr>"

text \<open>The cached world with the entry's \<^verbatim>\<open>.data\<close> file overwritten by bytes that are not gzip.\<close>

definition corrupt_world :: world where
  "corrupt_world =
     cached_world\<lparr>files := AList.update (add_ext sample_file ''.data'')
                               \<lparr>data = ''garbage'', mtime = 1000000\<rparr> (files cached_world)\<rparr>"

text \<open>
  The cached world when the process starts again 86400.002 s after the entry's \<^verbatim>\<open>.data\<close>
  file was written: the timers of the old process are gone, and the start-up sweep runs.
\<close>

definition restarted_world :: world where
  "restarted_world = cached_world\<lparr>now := 1000000 + 86400000 + 2, timers := []\<rparr>"

text \<open>
  The same cache with \<^verbatim>\<open>CACHE_TTL=2592000\<close> (30 days), and the world after the sample
  \<^verbatim>\<open>set\<close> in it.
\<close>

definition month_cache :: cache where
  "month_cache = sample_cache\<lparr>ttl := 2592000\<rparr>"

definition month_world :: world where
  "month_world =
     snd (set_entry sample_lib month_cache ''http://a'' 200 sample_headers ''hi'' empty_world)"

section \<open>When a write goes through, and when a file is expired\<close>

text \<open>
  \<open>storable w filename\<close> says that the file system of \<open>w\<close> lets \<^verbatim>\<open>set\<close> write the two
  files of \<open>filename\<close>: no component of the shard directory's path is a regular file, the
  components still missing may be created, and neither of the two files is a directory
  or refused.
\<close>

definition storable :: "world \<Rightarrow> path \<Rightarrow> bool" where
  "storable w filename =
     ((\<forall>p \<in> set (prefixes (dirname filename)).
          \<not> is_file w p \<and> (is_dir w p \<or> p \<notin> set (refused w))) \<and>
      (\<forall>x \<in> {add_ext filename ''.data'', add_ext filename ''.meta''}.
          \<not> is_dir w x \<and> x \<notin> set (refused w)))"

definition expired_at :: "cache \<Rightarrow> int \<Rightarrow> int \<Rightarrow> bool" where
  "expired_at c t mt = (of_int (t - mt) / (1000 :: rat) \<ge> ttl c)"

section \<open>What a sweep may change\<close>

text \<open>
  \<open>sweep_rel c d w w'\<close> relates the world before and after work of the sweep inside
  directory \<open>d\<close>: the clock and the refusals are the same, no file or directory has
  appeared, a file that has disappeared lay below \<open>d\<close>, carried one of the two
  extensions, was expired by its own modification time and was not refused, and a
  directory that has disappeared has nothing in it.
\<close>

definition sweep_rel :: "cache \<Rightarrow> path \<Rightarrow> world \<Rightarrow> world \<Rightarrow> bool" where
  "sweep_rel c d w w' =
     (now w' = now w \<and> refused w' = refused w \<and> set (dirs w') \<subseteq> set (dirs w) \<and>
      (\<forall>p f. map_of (files w') p = Some f \<longrightarrow> map_of (files w) p = Some f) \<and>
      (\<forall>p f. map_of (files w) p = Some f \<and> map_of (files w') p = None \<longrightarrow>
         strict_prefix d p \<and> expired_at c (now w) (mtime f) \<and> p \<notin> set (refused w) \<and>
         (endsWith (last p) ''.data'' \<or> endsWith (last p) ''.meta'')) \<and>
      (distinct (map fst (files w)) \<longrightarrow> distinct (map fst (files w'))) \<and>
      (\<forall>q x. q \<in> set (dirs w) \<and> q \<notin> set (dirs w') \<and> x \<noteq> [] \<and> butlast x = q \<longrightarrow>
         \<not> is_file w' x \<and> \<not> is_dir w' x))"

text \<open>
  \<open>enough n w\<close>: the bound \<open>n\<close> is positive and exceeds the depth of every directory of
  \<open>w\<close>.
  \<open>sweep_pre c dir p w\<close>: before a sweep of \<open>dir\<close>, the file \<open>p\<close> lies below \<open>dir\<close>, carries
  one of the two extensions, is not refused, is expired if it is there, and every
  directory from \<open>dir\<close> down to it exists while it does.
  \<open>entries_ok dir p es w\<close>: a listing \<open>es\<close> of \<open>dir\<close>, or what is left of it, still holds
  the entry that leads to \<open>p\<close>, and its file entries are distinct files of \<open>w\<close>.
\<close>

definition enough :: "nat \<Rightarrow> world \<Rightarrow> bool" where
  "enough n w = (0 < n \<and> (\<forall>q \<in> set (dirs w). length q < n))"

definition sweep_pre :: "cache \<Rightarrow> path \<Rightarrow> path \<Rightarrow> world \<Rightarrow> bool" where
  "sweep_pre c dir p w =
     (distinct (map fst (files w)) \<and> strict_prefix dir p \<and>
      (\<forall>f. map_of (files w) p = Some f \<longrightarrow> expired_at c (now w) (mtime f)) \<and>
      (endsWith (last p) ''.data'' \<or> endsWith (last p) ''.meta'') \<and>
      p \<notin> set (refused w) \<and>
      (is_file w p \<longrightarrow> (\<forall>q. prefix dir q \<and> strict_prefix q p \<longrightarrow> is_dir w q)))"

definition entries_ok :: "path \<Rightarrow> path \<Rightarrow> dirent list \<Rightarrow> world \<Rightarrow> bool" where
  "entries_ok dir p es w =
     ((is_file w p \<longrightarrow>
         \<lparr>name = p ! length dir, isDirectory = (length dir + 1 < length p)\<rparr> \<in> set es) \<and>
      (\<forall>e \<in> set es. \<not> isDirectory e \<longrightarrow> is_file w (path_join dir (name e))) \<and>
      distinct (map name (filter (\<lambda>e. \<not> isDirectory e) es)))"

section \<open>The two files of an entry\<close>

text \<open>
  For a file name \<open>f\<close> as \<^verbatim>\<open>filenameForUrl\<close> returns it: both files of the entry are there,
  neither is, the file system lets both be removed; and a file is expired by its own
  modification time.
\<close>

definition both_files :: "world \<Rightarrow> path \<Rightarrow> bool" where
  "both_files w f = (is_file w (add_ext f ''.data'') \<and> is_file w (add_ext f ''.meta''))"

definition no_files :: "world \<Rightarrow> path \<Rightarrow> bool" where
  "no_files w f = (\<not> is_file w (add_ext f ''.data'') \<and> \<not> is_file w (add_ext f ''.meta''))"

definition removable :: "world \<Rightarrow> path \<Rightarrow> bool" where
  "removable w f =
     (add_ext f ''.data'' \<notin> set (refused w) \<and> add_ext f ''.meta'' \<notin> set (refused w))"

definition file_expired :: "cache \<Rightarrow> world \<Rightarrow> path \<Rightarrow> bool" where
  "file_expired c w p =
     (case map_of (files w) p of None \<Rightarrow> False | Some f \<Rightarrow> expired_at c (now w) (mtime f))"

section \<open>Basic facts\<close>

lemma add_ext_join: "add_ext (path_join d n) e = path_join d (n @ e)"
  by (simp add: add_ext_def path_join_def)

lemma dirname_join: "dirname (path_join d n) = d"
  by (simp add: dirname_def path_join_def)

lemma filename_is_join: "\<exists>d n. filenameForUrl L c u = path_join d n"
  unfolding filenameForUrl_def Let_def by blast

lemma data_neq_meta: "add_ext (filenameForUrl L c u) ''.data'' \<noteq> add_ext (filenameForUrl L c u) ''.meta''"
  by (simp add: filenameForUrl_def Let_def add_ext_join) (simp add: path_join_def)

lemma isExpired_eq: "isExpiredBasedOnMtime c mt w = (Inr (expired_at c (now w) mt), w)"
  by (simp add: isExpiredBasedOnMtime_def expired_at_def)

lemma get_absent:
  assumes "\<not> (is_file w (add_ext (filenameForUrl L c u) ''.data'') \<or> is_dir w (add_ext (filenameForUrl L c u) ''.data''))
     \<or> \<not> (is_file w (add_ext (filenameForUrl L c u) ''.meta'') \<or> is_dir w (add_ext (filenameForUrl L c u) ''.meta''))"
  shows "get L c u w = (Inr None, w)"
  using assms
  by (auto simp add: get_def Let_def await_def try_catch_def fs_access_def resolve_def)

lemma get_fresh:
  assumes "map_of (files w) (add_ext (filenameForUrl L c u) ''.data'') = Some fd"
    and "map_of (files w) (add_ext (filenameForUrl L c u) ''.meta'') = Some fm"
    and "\<not> expired_at c (now w) (mtime fm)"
  shows "get L c u w =
    (Inr (case gunzip L (data fd) of
            Inl _ \<Rightarrow> None
          | Inr cont \<Rightarrow>
              (case JSON_parse L (data fm) of
                 Inl _ \<Rightarrow> None
               | Inr m \<Rightarrow> Some \<lparr>statusCode = statusCode m, headers = headers m, content = cont\<rparr>)), w)"
  using assms
  by (simp add: get_def Let_def await_def try_catch_def fs_access_def resolve_def is_file_def
      isFileExpired_def fs_stat_def isExpired_eq fs_readFile_def settle_def split: sum.splits)

lemma get_expired:
  assumes "is_file w (add_ext (filenameForUrl L c u) ''.data'') \<or> is_dir w (add_ext (filenameForUrl L c u) ''.data'')"
    and "map_of (files w) (add_ext (filenameForUrl L c u) ''.meta'') = Some fm"
    and "expired_at c (now w) (mtime fm)"
  shows "get L c u w =
    await (fs_unlink (add_ext (filenameForUrl L c u) ''.meta'')) (\<lambda>_.
    await (fs_unlink (add_ext (filenameForUrl L c u) ''.data'')) (\<lambda>_. resolve None)) w"
  using assms
  by (simp add: get_def Let_def await_def try_catch_def fs_access_def resolve_def is_file_def
      isFileExpired_def fs_stat_def isExpired_eq)

lemma removeExpiredCacheUrl_Inr: "fst (removeExpiredCacheUrl L c u w) = Inr ()"
  by (simp add: removeExpiredCacheUrl_def Let_def try_catch_def log_msg_def split: prod.splits sum.splits)


lemma await_log_msg: "await (log_msg m) f w = f () (w\<lparr>logs := logs w @ [m]\<rparr>)"
  by (simp add: await_def log_msg_def)

lemma snd_await_resolve: "snd (await m (\<lambda>_. resolve x) w) = snd (m w)"
  by (simp add: await_def resolve_def split: prod.splits sum.splits)

lemma mkdirs_timers: "mkdirs ps w = (r, w') \<Longrightarrow> timers w' = timers w"
  by (induction ps arbitrary: w) (auto split: if_splits)

lemma ensureDirExists_timers: "ensureDirExists d w = (r, w') \<Longrightarrow> timers w' = timers w"
  by (auto simp add: ensureDirExists_def try_catch_def fs_access_def fs_mkdir_recursive_def log_msg_def
      split: prod.splits sum.splits if_splits dest: mkdirs_timers)

lemma fs_writeFile_timers: "fs_writeFile p b w = (r, w') \<Longrightarrow> timers w' = timers w"
  by (auto simp add: fs_writeFile_def split: if_splits)

lemma set_entry_arms_timer:
  "map callback (timers (snd (set_entry L c u sc hs v w))) =
     map callback (timers w) @ [RemoveExpiredCacheUrl u]"
proof -
  let ?f = "filenameForUrl L c u"
  obtain r1 w1 where 1: "ensureDirExists (dirname ?f) w = (r1, w1)" by fastforce
  obtain r2 w2 where 2: "fs_writeFile (add_ext ?f ''.data'') (gzip L v) w1 = (r2, w2)" by fastforce
  obtain r3 w3 where 3: "fs_writeFile (add_ext ?f ''.meta'')
      (JSON_stringify L \<lparr>statusCode = sc, headers = filteredHeaders hs\<rparr>) w2 = (r3, w3)" by fastforce
  have t: "timers w1 = timers w" "timers w2 = timers w" "timers w3 = timers w"
    using 1 2 3 ensureDirExists_timers fs_writeFile_timers by metis+
  show ?thesis
    using 1 2 3 t
    by (simp add: set_entry_def Let_def await_def try_catch_def log_msg_def setTimeout_def
        split: sum.splits)
qed

section \<open>The sample installation, evaluated\<close>

lemma sample_filename: "filenameForUrl sample_lib sample_cache ''http://a'' = sample_file"
  by (simp add: filenameForUrl_def urlHash_def sample_lib_def sample_cache_def sample_file_def path_join_def)

lemma sample_lower:
  "toLowerCase ''content-type'' = ''content-type''"
  "toLowerCase ''date'' = ''date''"
  "toLowerCase ''Content-Type'' = ''content-type''"
  by (simp_all add: toLowerCase_def lower_char_def)

lemma sample_deny:
  "''date'' \<in> set nonCacheableHeaders"
  "''content-type'' \<notin> set nonCacheableHeaders"
  by (simp_all add: nonCacheableHeaders_def)

lemma sample_filtered: "filteredHeaders sample_headers = [(''content-type'', ''text/html'')]"
  by (simp add: sample_headers_def filteredHeaders_def sample_lower sample_deny)

lemma sample_stringify:
  \<open>JSON_stringify sample_lib \<lparr>statusCode = 200, headers = [(''content-type'', ''text/html'')]\<rparr>
     = ''{"statusCode":200,"headers":{"content-type":"text/html"}}''\<close>
  by (simp add: sample_lib_def sample_json_def)

lemma sample_parse:
  \<open>JSON_parse sample_lib ''{"statusCode":200,"headers":{"content-type":"text/html"}}''
     = Inr \<lparr>statusCode = 200, headers = [(''content-type'', ''text/html'')]\<rparr>\<close>
  by (simp add: sample_lib_def sample_json_def)

lemma sample_gzip: "gzip sample_lib b = CHR 0x1F # CHR 0x8B # b"
  by (simp add: sample_lib_def)

lemma sample_gunzip: "gunzip sample_lib (CHR 0x1F # CHR 0x8B # b) = Inr b"
  by (simp add: sample_lib_def)

lemma storable_empty_world: "storable empty_world sample_file"
  by (simp add: storable_def sample_file_def dirname_def add_ext_def empty_world_def is_file_def is_dir_def)

lemma cached_world_eq:
  \<open>cached_world =
    \<lparr>files =
       [(add_ext sample_file ''.data'', \<lparr>data = CHR 0x1F # CHR 0x8B # ''hi'', mtime = 1000000\<rparr>),
        (add_ext sample_file ''.meta'',
         \<lparr>data = ''{"statusCode":200,"headers":{"content-type":"text/html"}}'', mtime = 1000005\<rparr>)],
     dirs = [[], [''tmp''], [''tmp'', ''prerender-cache''], [''tmp'', ''prerender-cache'', ''f7'']],
     refused = [], dir_mtime = (\<lambda>_. 0), now = 1000010, write_ms = 5,
     timers = [\<lparr>callback = RemoveExpiredCacheUrl ''http://a'', delay_ms = 86400000, armed_at = 1000010\<rparr>],
     logs = []\<rparr>\<close>
  by (simp add: cached_world_def set_entry_def sample_filename Let_def sample_filtered sample_stringify sample_gzip)
    (simp add: sample_file_def add_ext_def dirname_def empty_world_def
      await_def try_catch_def ensureDirExists_def fs_access_def is_file_def is_dir_def
      fs_mkdir_recursive_def fs_writeFile_def setTimeout_def timer_delay_def TIMEOUT_MAX_def
      sample_cache_def)

section \<open>Writing an entry\<close>

lemma mkdirs_ok:
  "\<forall>p \<in> set ps. \<not> is_file w p \<and> (is_dir w p \<or> p \<notin> set (refused w)) \<Longrightarrow>
   \<exists>ds. mkdirs ps w = (Inr (), w\<lparr>dirs := dirs w @ ds\<rparr>) \<and> set ds \<subseteq> set ps \<and> set ps \<subseteq> set (dirs w) \<union> set ds"
proof (induction ps arbitrary: w)
  case Nil
  then show ?case by (intro exI[of _ "[]"]) simp
next
  case (Cons d ps)
  show ?case
  proof (cases "is_dir w d")
    case True
    from Cons.prems have "\<forall>p \<in> set ps. \<not> is_file w p \<and> (is_dir w p \<or> p \<notin> set (refused w))" by simp
    from Cons.IH[OF this] obtain ds where
      "mkdirs ps w = (Inr (), w\<lparr>dirs := dirs w @ ds\<rparr>)" "set ds \<subseteq> set ps" "set ps \<subseteq> set (dirs w) \<union> set ds"
      by blast
    with True show ?thesis
      by (intro exI[of _ ds]) (auto simp: is_dir_def)
  next
    case False
    let ?w = "w\<lparr>dirs := dirs w @ [d]\<rparr>"
    from Cons.prems False have d: "\<not> is_file w d" "d \<notin> set (refused w)" by auto
    from Cons.prems have "\<forall>p \<in> set ps. \<not> is_file ?w p \<and> (is_dir ?w p \<or> p \<notin> set (refused ?w))"
      by (auto simp: is_file_def is_dir_def)
    from Cons.IH[OF this] obtain ds where
      "mkdirs ps ?w = (Inr (), ?w\<lparr>dirs := dirs ?w @ ds\<rparr>)" "set ds \<subseteq> set ps" "set ps \<subseteq> set (dirs ?w) \<union> set ds"
      by blast
    with False d show ?thesis
      by (intro exI[of _ "d # ds"]) auto
  qed
qed

lemma ensureDirExists_ok:
  assumes "\<forall>p \<in> set (prefixes d). \<not> is_file w p \<and> (is_dir w p \<or> p \<notin> set (refused w))"
  shows "\<exists>ds. ensureDirExists d w = (Inr (), w\<lparr>dirs := dirs w @ ds\<rparr>) \<and> d \<in> set (dirs w @ ds)
     \<and> set ds \<subseteq> set (prefixes d)"
proof (cases "is_dir w d")
  case True
  then show ?thesis
    by (intro exI[of _ "[]"]) (simp add: ensureDirExists_def try_catch_def fs_access_def is_dir_def)
next
  case False
  from assms have nf: "\<not> is_file w d" by simp
  from mkdirs_ok[OF assms] obtain ds where
    ds: "mkdirs (prefixes d) w = (Inr (), w\<lparr>dirs := dirs w @ ds\<rparr>)" "set ds \<subseteq> set (prefixes d)"
      "set (prefixes d) \<subseteq> set (dirs w) \<union> set ds"
    by blast
  have "d \<in> set (prefixes d)" by simp
  with ds(3) have "d \<in> set (dirs w @ ds)" by auto
  with False nf ds show ?thesis
    by (intro exI[of _ ds]) (simp add: ensureDirExists_def try_catch_def fs_access_def fs_mkdir_recursive_def)
qed

text \<open>What \<^verbatim>\<open>set\<close> leaves behind when the file system lets it write.\<close>

lemma set_entry_ok:
  assumes "storable w (filenameForUrl L c u)"
  shows "\<exists>ds. set_entry L c u sc hs v w =
     (Inr (), w\<lparr>dirs := dirs w @ ds,
               files := AList.update (add_ext (filenameForUrl L c u) ''.meta'')
                          \<lparr>data = JSON_stringify L \<lparr>statusCode = sc, headers = filteredHeaders hs\<rparr>,
                            mtime = now w + write_ms w\<rparr>
                          (AList.update (add_ext (filenameForUrl L c u) ''.data'')
                             \<lparr>data = gzip L v, mtime = now w\<rparr> (files w)),
               now := now w + write_ms w + write_ms w,
               timers := timers w @ [\<lparr>callback = RemoveExpiredCacheUrl u, delay_ms = timer_delay (ttl c * 1000),
                                       armed_at = now w + write_ms w + write_ms w\<rparr>]\<rparr>)"
proof -
  let ?f = "filenameForUrl L c u"
  let ?d = "dirname ?f"
  obtain d0 n where f: "?f = path_join d0 n" using filename_is_join by blast
  from assms have pre: "\<forall>p \<in> set (prefixes ?d). \<not> is_file w p \<and> (is_dir w p \<or> p \<notin> set (refused w))"
    and leaf: "\<not> is_dir w (add_ext ?f ''.data'')" "add_ext ?f ''.data'' \<notin> set (refused w)"
      "\<not> is_dir w (add_ext ?f ''.meta'')" "add_ext ?f ''.meta'' \<notin> set (refused w)"
    by (simp_all add: storable_def)
  from ensureDirExists_ok[OF pre] obtain ds where
    ds: "ensureDirExists ?d w = (Inr (), w\<lparr>dirs := dirs w @ ds\<rparr>)" "?d \<in> set (dirs w @ ds)"
      "set ds \<subseteq> set (prefixes ?d)"
    by blast
  have dn: "dirname (add_ext ?f e) = ?d" for e
    by (simp add: f add_ext_join dirname_join)
  have notpre: "add_ext ?f e \<notin> set (prefixes ?d)" for e
  proof
    assume "add_ext ?f e \<in> set (prefixes ?d)"
    then have "prefix (d0 @ [n @ e]) d0"
      by (simp add: f add_ext_join dirname_join) (simp add: path_join_def)
    then show False by (auto dest: prefix_length_le)
  qed
  from pre have nfd: "\<not> is_file w ?d" by simp
  show ?thesis
    using ds leaf nfd notpre[of "''.data''"] notpre[of "''.meta''"]
    by (intro exI[of _ ds])
      (auto simp add: set_entry_def Let_def await_def try_catch_def fs_writeFile_def dn is_dir_def is_file_def
        setTimeout_def update_conv')
qed

text \<open>A later \<^verbatim>\<open>get\<close>, at any time \<open>t\<close> before the entry expires, decodes what was stored.\<close>

lemma get_after_set:
  assumes st: "storable w (filenameForUrl L c u)"
    and fresh: "\<not> expired_at c t (now w + write_ms w)"
  shows "get L c u ((snd (set_entry L c u sc hs v w))\<lparr>now := t\<rparr>) =
    (Inr (case gunzip L (gzip L v) of
            Inl _ \<Rightarrow> None
          | Inr cont \<Rightarrow>
              (case JSON_parse L (JSON_stringify L \<lparr>statusCode = sc, headers = filteredHeaders hs\<rparr>) of
                 Inl _ \<Rightarrow> None
               | Inr m \<Rightarrow> Some \<lparr>statusCode = statusCode m, headers = headers m, content = cont\<rparr>)),
     (snd (set_entry L c u sc hs v w))\<lparr>now := t\<rparr>)"
proof -
  let ?data = "add_ext (filenameForUrl L c u) ''.data''"
  let ?meta = "add_ext (filenameForUrl L c u) ''.meta''"
  let ?w = "(snd (set_entry L c u sc hs v w))\<lparr>now := t\<rparr>"
  from set_entry_ok[OF st, of sc hs v] obtain ds where
    eq: "set_entry L c u sc hs v w =
     (Inr (), w\<lparr>dirs := dirs w @ ds,
               files := AList.update ?meta
                          \<lparr>data = JSON_stringify L \<lparr>statusCode = sc, headers = filteredHeaders hs\<rparr>,
                            mtime = now w + write_ms w\<rparr>
                          (AList.update ?data \<lparr>data = gzip L v, mtime = now w\<rparr> (files w)),
               now := now w + write_ms w + write_ms w,
               timers := timers w @ [\<lparr>callback = RemoveExpiredCacheUrl u, delay_ms = timer_delay (ttl c * 1000),
                                       armed_at = now w + write_ms w + write_ms w\<rparr>]\<rparr>)"
    by blast
  have d: "map_of (files ?w) ?data = Some \<lparr>data = gzip L v, mtime = now w\<rparr>"
    using data_neq_meta[of L c u] by (simp add: eq update_conv')
  have m: "map_of (files ?w) ?meta =
      Some \<lparr>data = JSON_stringify L \<lparr>statusCode = sc, headers = filteredHeaders hs\<rparr>,
             mtime = now w + write_ms w\<rparr>"
    by (simp add: eq update_conv')
  have f: "\<not> expired_at c (now ?w)
      (mtime \<lparr>data = JSON_stringify L \<lparr>statusCode = sc, headers = filteredHeaders hs\<rparr>,
             mtime = now w + write_ms w\<rparr>)"
    using fresh by simp
  show ?thesis
    using get_fresh[OF d m f] by (simp split: sum.splits)
qed

section \<open>What a stored entry looks like\<close>

lemma get_never_expired:
  assumes "map_of (files w) (add_ext (filenameForUrl L c u) ''.meta'') = Some fm"
    and "expired_at c (now w) (mtime fm)"
  shows "fst (get L c u w) \<noteq> Inr (Some e)"
proof (cases "is_file w (add_ext (filenameForUrl L c u) ''.data'')
              \<or> is_dir w (add_ext (filenameForUrl L c u) ''.data'')")
  case True
  show ?thesis
    using get_expired[OF True assms]
    by (simp add: await_def fs_unlink_def resolve_def split: prod.splits sum.splits if_splits)
next
  case False
  then show ?thesis using get_absent[of w L c u] by simp
qed

lemma get_expired_removes:
  assumes "map_of (files w) (add_ext (filenameForUrl L c u) ''.meta'') = Some fm"
    and "expired_at c (now w) (mtime fm)"
    and "is_file w (add_ext (filenameForUrl L c u) ''.data'')"
    and "add_ext (filenameForUrl L c u) ''.data'' \<notin> set (refused w)"
    and "add_ext (filenameForUrl L c u) ''.meta'' \<notin> set (refused w)"
  shows "get L c u w =
      (Inr None, w\<lparr>files := AList.delete (add_ext (filenameForUrl L c u) ''.data'')
                              (AList.delete (add_ext (filenameForUrl L c u) ''.meta'') (files w))\<rparr>)"
proof -
  from assms(3) have d: "is_file w (add_ext (filenameForUrl L c u) ''.data'')
      \<or> is_dir w (add_ext (filenameForUrl L c u) ''.data'')" by simp
  show ?thesis
    using get_expired[OF d assms(1,2)] assms data_neq_meta[of L c u]
    by (simp add: await_def fs_unlink_def resolve_def is_file_def delete_conv')
qed

lemma set_entry_files:
  assumes "storable w (filenameForUrl L c u)"
  shows "map_of (files (snd (set_entry L c u sc hs v w))) (add_ext (filenameForUrl L c u) ''.data'')
           = Some \<lparr>data = gzip L v, mtime = now w\<rparr>"
    and "map_of (files (snd (set_entry L c u sc hs v w))) (add_ext (filenameForUrl L c u) ''.meta'')
           = Some \<lparr>data = JSON_stringify L \<lparr>statusCode = sc, headers = filteredHeaders hs\<rparr>,
                   mtime = now w + write_ms w\<rparr>"
    and "fst (set_entry L c u sc hs v w) = Inr ()"
    and "logs (snd (set_entry L c u sc hs v w)) = logs w"
proof -
  from set_entry_ok[OF assms, of sc hs v] obtain ds where
    eq: "set_entry L c u sc hs v w =
     (Inr (), w\<lparr>dirs := dirs w @ ds,
               files := AList.update (add_ext (filenameForUrl L c u) ''.meta'')
                          \<lparr>data = JSON_stringify L \<lparr>statusCode = sc, headers = filteredHeaders hs\<rparr>,
                            mtime = now w + write_ms w\<rparr>
                          (AList.update (add_ext (filenameForUrl L c u) ''.data'')
                             \<lparr>data = gzip L v, mtime = now w\<rparr> (files w)),
               now := now w + write_ms w + write_ms w,
               timers := timers w @ [\<lparr>callback = RemoveExpiredCacheUrl u, delay_ms = timer_delay (ttl c * 1000),
                                       armed_at = now w + write_ms w + write_ms w\<rparr>]\<rparr>)"
    by blast
  show "map_of (files (snd (set_entry L c u sc hs v w))) (add_ext (filenameForUrl L c u) ''.data'')
           = Some \<lparr>data = gzip L v, mtime = now w\<rparr>"
    using data_neq_meta[of L c u] by (simp add: eq update_conv')
  show "map_of (files (snd (set_entry L c u sc hs v w))) (add_ext (filenameForUrl L c u) ''.meta'')
           = Some \<lparr>data = JSON_stringify L \<lparr>statusCode = sc, headers = filteredHeaders hs\<rparr>,
                   mtime = now w + write_ms w\<rparr>"
    by (simp add: eq update_conv')
  show "fst (set_entry L c u sc hs v w) = Inr ()" by (simp add: eq)
  show "logs (snd (set_entry L c u sc hs v w)) = logs w" by (simp add: eq)
qed

lemma stale_world_facts:
  \<open>map_of (files stale_world) (add_ext sample_file ''.data'')
     = Some \<lparr>data = CHR 0x1F # CHR 0x8B # ''hi'', mtime = 1000000\<rparr>\<close>
  \<open>map_of (files stale_world) (add_ext sample_file ''.meta'')
     = Some \<lparr>data = ''{"statusCode":200,"headers":{"content-type":"text/html"}}'', mtime = 1000005\<rparr>\<close>
  "now stale_world = 87400005" "refused stale_world = []"
  by (simp_all add: stale_world_def cached_world_eq sample_file_def add_ext_def)

lemma get_after_set_Some:
  assumes "storable w (filenameForUrl L c u)"
    and "JSON_parse L (JSON_stringify L \<lparr>statusCode = sc, headers = filteredHeaders H\<rparr>)
           = Inr \<lparr>statusCode = sc, headers = filteredHeaders H\<rparr>"
    and "fst (get L c u ((snd (set_entry L c u sc H B w))\<lparr>now := t\<rparr>)) = Inr (Some e)"
  shows "headers e = filteredHeaders H" and "statusCode e = sc"
proof -
  have fresh: "\<not> expired_at c t (now w + write_ms w)"
  proof
    assume ex: "expired_at c t (now w + write_ms w)"
    let ?w = "(snd (set_entry L c u sc H B w))\<lparr>now := t\<rparr>"
    have "map_of (files ?w) (add_ext (filenameForUrl L c u) ''.meta'') =
      Some \<lparr>data = JSON_stringify L \<lparr>statusCode = sc, headers = filteredHeaders H\<rparr>,
             mtime = now w + write_ms w\<rparr>"
      using set_entry_files(2)[OF assms(1), of sc H B] by simp
    from get_never_expired[OF this, where e = e] ex assms(3) show False by simp
  qed
  from get_after_set[OF assms(1) fresh, of sc H B] assms(2,3)
  show "headers e = filteredHeaders H" and "statusCode e = sc"
    by (auto split: sum.splits)
qed

lemma storable_logs [simp]: "storable (w\<lparr>logs := l\<rparr>) f = storable w f"
  by (simp add: storable_def is_file_def is_dir_def)

lemma storable_cached_world: "storable cached_world sample_file"
  by (simp add: storable_def cached_world_eq is_file_def is_dir_def)
    (simp add: sample_file_def dirname_def add_ext_def)

lemma sample_stringify_upper:
  \<open>JSON_stringify sample_lib \<lparr>statusCode = 200, headers = [(''Content-Type'', ''text/html'')]\<rparr>
     = ''{"statusCode":200,"headers":{"Content-Type":"text/html"}}''\<close>
  by (simp add: sample_lib_def sample_json_def)

lemma sample_parse_upper:
  \<open>JSON_parse sample_lib ''{"statusCode":200,"headers":{"Content-Type":"text/html"}}''
     = Inr \<lparr>statusCode = 200, headers = [(''Content-Type'', ''text/html'')]\<rparr>\<close>
  by (simp add: sample_lib_def sample_json_def)

lemma sample_filtered_upper:
  "filteredHeaders [(''Content-Type'', ''text/html'')] = [(''Content-Type'', ''text/html'')]"
  by (simp add: filteredHeaders_def sample_lower sample_deny)

section \<open>The storage hook\<close>

text \<open>
  C4. \<^verbatim>\<open>beforeSend\<close> leaves the world as it found it, and answers \<^verbatim>\<open>next()\<close>, unless the
  request method is \<^verbatim>\<open>GET\<close>, the status code is in the configured list and the response
  was not served from the cache; with the default list a response with status 500 is
  such a case. A call of \<^verbatim>\<open>set\<close> always changes the world (it arms a timer), so an
  unchanged world means that \<^verbatim>\<open>set\<close> was not called.
\<close>
theorem beforeSend_stores_only_eligible:
  "(\<not> (req_method req = ''GET'' \<and> prerender_statusCode req \<in> set (CACHE_STATUS_CODES cfg)
        \<and> \<not> fromCache req) \<longrightarrow> beforeSend L cfg req w = (Inr Next, w)) \<and>
   (CACHE_STATUS_CODES cfg = CACHE_STATUS_CODES_default \<and> prerender_statusCode req = 500
      \<longrightarrow> beforeSend L cfg req w = (Inr Next, w)) \<and>
   (snd (beforeSend L cfg req w) \<noteq> w \<longrightarrow>
      req_method req = ''GET'' \<and> prerender_statusCode req \<in> set (CACHE_STATUS_CODES cfg)
      \<and> \<not> fromCache req) \<and>
   snd (set_entry L c u sc hs v w) \<noteq> w"
proof -
  have "timers (snd (set_entry L c u sc hs v w)) \<noteq> timers w"
    using set_entry_arms_timer[of L c u sc hs v w] by (metis append_self_conv list.map_disc_iff not_Cons_self2)
  then have "snd (set_entry L c u sc hs v w) \<noteq> w" by auto
  then show ?thesis
    by (auto simp add: beforeSend_def resolve_def CACHE_STATUS_CODES_default_def)
qed

text \<open>
  A 500 response, a \<^verbatim>\<open>POST\<close> and a response served from the cache leave the sample world
  alone; the eligible sample request changes it.
\<close>

theorem beforeSend_stores_only_eligible_witness:
  "beforeSend sample_lib sample_config (sample_request\<lparr>prerender_statusCode := 500\<rparr>) cached_world
     = (Inr Next, cached_world) \<and>
   beforeSend sample_lib sample_config (sample_request\<lparr>req_method := ''POST''\<rparr>) cached_world
     = (Inr Next, cached_world) \<and>
   beforeSend sample_lib sample_config (sample_request\<lparr>fromCache := True\<rparr>) cached_world
     = (Inr Next, cached_world) \<and>
   snd (beforeSend sample_lib sample_config sample_request empty_world) \<noteq> empty_world"
proof -
  have a: "CACHE_STATUS_CODES sample_config = CACHE_STATUS_CODES_default \<and>
           prerender_statusCode (sample_request\<lparr>prerender_statusCode := 500\<rparr>) = 500"
    by (simp add: sample_config_def)
  have b: "\<not> (req_method (sample_request\<lparr>req_method := ''POST''\<rparr>) = ''GET'' \<and> 
    prerender_statusCode (sample_request\<lparr>req_method := ''POST''\<rparr>) \<in> set (CACHE_STATUS_CODES sample_config)
     \<and> \<not> fromCache (sample_request\<lparr>req_method := ''POST''\<rparr>))"
    by simp
  have c: "\<not> (req_method (sample_request\<lparr>fromCache := True\<rparr>) = ''GET'' \<and> 
    prerender_statusCode (sample_request\<lparr>fromCache := True\<rparr>) \<in> set (CACHE_STATUS_CODES sample_config)
     \<and> \<not> fromCache (sample_request\<lparr>fromCache := True\<rparr>))"
    by simp
  have "map callback (timers (snd (beforeSend sample_lib sample_config sample_request empty_world)))
           = [RemoveExpiredCacheUrl ''http://a'']"
    using set_entry_arms_timer[of sample_lib sample_cache "''http://a''" 200 sample_headers "''hi''"
        "empty_world\<lparr>logs := logs empty_world @
           [Caching ''http://a'' (filenameForUrl sample_lib sample_cache ''http://a'')]\<rparr>"]
    by (simp add: beforeSend_def sample_request_def sample_config_def CACHE_STATUS_CODES_default_def
        await_log_msg snd_await_resolve) (simp add: empty_world_def)
  then have d': "snd (beforeSend sample_lib sample_config sample_request empty_world) \<noteq> empty_world"
    by (auto simp add: empty_world_def)
  show ?thesis
    using beforeSend_stores_only_eligible[of "sample_request\<lparr>prerender_statusCode := 500\<rparr>" sample_config sample_lib cached_world]
      beforeSend_stores_only_eligible[of "sample_request\<lparr>req_method := ''POST''\<rparr>" sample_config sample_lib cached_world]
      beforeSend_stores_only_eligible[of "sample_request\<lparr>fromCache := True\<rparr>" sample_config sample_lib cached_world]
      a b c d'
    by blast
qed

section \<open>Reading an entry\<close>

text \<open>
  C2. When the \<^verbatim>\<open>.meta\<close> file of a URL has a modification time \<open>ttl\<close> seconds or more in the
  past, \<^verbatim>\<open>get\<close> never returns an entry for that URL; and when the \<^verbatim>\<open>.data\<close> file is there
  too and the file system lets both be removed, \<^verbatim>\<open>get\<close> returns \<^verbatim>\<open>null\<close> and neither file
  exists afterwards.
\<close>
theorem get_drops_expired_entry:
  assumes "map_of (files w) (add_ext (filenameForUrl L c u) ''.meta'') = Some fm"
    and "ttl c \<le> of_int (now w - mtime fm) / 1000"
  shows "(\<forall>e. fst (get L c u w) \<noteq> Inr (Some e)) \<and>
         (is_file w (add_ext (filenameForUrl L c u) ''.data'')
          \<and> add_ext (filenameForUrl L c u) ''.data'' \<notin> set (refused w)
          \<and> add_ext (filenameForUrl L c u) ''.meta'' \<notin> set (refused w)
          \<longrightarrow> fst (get L c u w) = Inr None
              \<and> \<not> is_file (snd (get L c u w)) (add_ext (filenameForUrl L c u) ''.data'')
              \<and> \<not> is_file (snd (get L c u w)) (add_ext (filenameForUrl L c u) ''.meta''))"
proof (intro conjI allI impI)
  have ex: "expired_at c (now w) (mtime fm)"
    using assms(2) by (simp add: expired_at_def)
  show "fst (get L c u w) \<noteq> Inr (Some e)" for e
    using get_never_expired[OF assms(1) ex] .
  assume a: "is_file w (add_ext (filenameForUrl L c u) ''.data'')
          \<and> add_ext (filenameForUrl L c u) ''.data'' \<notin> set (refused w)
          \<and> add_ext (filenameForUrl L c u) ''.meta'' \<notin> set (refused w)"
  have g: "get L c u w =
      (Inr None, w\<lparr>files := AList.delete (add_ext (filenameForUrl L c u) ''.data'')
                              (AList.delete (add_ext (filenameForUrl L c u) ''.meta'') (files w))\<rparr>)"
    using get_expired_removes[OF assms(1) ex] a by simp
  show "fst (get L c u w) = Inr None" by (simp add: g)
  show "\<not> is_file (snd (get L c u w)) (add_ext (filenameForUrl L c u) ''.data'')"
    by (simp add: g is_file_def delete_conv')
  show "\<not> is_file (snd (get L c u w)) (add_ext (filenameForUrl L c u) ''.meta'')"
    by (simp add: g is_file_def delete_conv')
qed

text \<open>The sample entry, read when its \<^verbatim>\<open>.meta\<close> file is exactly 86400 s old.\<close>

theorem get_drops_expired_entry_witness:
  "ttl sample_cache \<le> of_int (now stale_world - 1000005) / 1000 \<and>
   is_file stale_world (add_ext sample_file ''.data'') \<and>
   is_file stale_world (add_ext sample_file ''.meta'') \<and>
   fst (get sample_lib sample_cache ''http://a'' stale_world) = Inr None \<and>
   \<not> is_file (snd (get sample_lib sample_cache ''http://a'' stale_world)) (add_ext sample_file ''.data'') \<and>
   \<not> is_file (snd (get sample_lib sample_cache ''http://a'' stale_world)) (add_ext sample_file ''.meta'')"
proof -
  have 1: \<open>map_of (files stale_world) (add_ext (filenameForUrl sample_lib sample_cache ''http://a'') ''.meta'')
      = Some \<lparr>data = ''{"statusCode":200,"headers":{"content-type":"text/html"}}'', mtime = 1000005\<rparr>\<close>
    by (simp add: sample_filename stale_world_facts)
  have 2: \<open>ttl sample_cache \<le> of_int (now stale_world -
      mtime \<lparr>data = ''{"statusCode":200,"headers":{"content-type":"text/html"}}'', mtime = 1000005\<rparr>) / 1000\<close>
    by (simp add: stale_world_facts sample_cache_def)
  have 3: "is_file stale_world (add_ext sample_file ''.data'')"
    "is_file stale_world (add_ext sample_file ''.meta'')"
    by (simp_all add: is_file_def stale_world_facts)
  show ?thesis
    using get_drops_expired_entry[OF 1 2] 2 3
    by (simp add: sample_filename stale_world_facts)
qed

text \<open>
  C5. \<^verbatim>\<open>get\<close> returns \<^verbatim>\<open>null\<close>, and leaves the world alone, when either file is absent, and
  when both are there and unexpired but the body does not decompress or the metadata does
  not parse. Whenever \<^verbatim>\<open>get\<close> does raise, the entry was expired: the error is not one of
  decoding.
\<close>
theorem get_misses_instead_of_raising:
  "(\<not> (is_file w (add_ext (filenameForUrl L c u) ''.data'')
        \<or> is_dir w (add_ext (filenameForUrl L c u) ''.data''))
    \<or> \<not> (is_file w (add_ext (filenameForUrl L c u) ''.meta'')
        \<or> is_dir w (add_ext (filenameForUrl L c u) ''.meta''))
    \<longrightarrow> get L c u w = (Inr None, w)) \<and>
   (map_of (files w) (add_ext (filenameForUrl L c u) ''.data'') = Some fd
    \<and> map_of (files w) (add_ext (filenameForUrl L c u) ''.meta'') = Some fm
    \<and> \<not> ttl c \<le> of_int (now w - mtime fm) / 1000
    \<and> (gunzip L (data fd) = Inl ez \<or> JSON_parse L (data fm) = Inl ej)
    \<longrightarrow> get L c u w = (Inr None, w)) \<and>
   (fst (get L c u w) = Inl e
    \<longrightarrow> fst (isFileExpired c (add_ext (filenameForUrl L c u) ''.meta'') w) = Inr True)"
proof (intro conjI impI)
  assume "\<not> (is_file w (add_ext (filenameForUrl L c u) ''.data'')
        \<or> is_dir w (add_ext (filenameForUrl L c u) ''.data''))
    \<or> \<not> (is_file w (add_ext (filenameForUrl L c u) ''.meta'')
        \<or> is_dir w (add_ext (filenameForUrl L c u) ''.meta''))"
  then show "get L c u w = (Inr None, w)" by (rule get_absent)
next
  assume a: "map_of (files w) (add_ext (filenameForUrl L c u) ''.data'') = Some fd
    \<and> map_of (files w) (add_ext (filenameForUrl L c u) ''.meta'') = Some fm
    \<and> \<not> ttl c \<le> of_int (now w - mtime fm) / 1000
    \<and> (gunzip L (data fd) = Inl ez \<or> JSON_parse L (data fm) = Inl ej)"
  then have "\<not> expired_at c (now w) (mtime fm)" by (simp add: expired_at_def)
  from get_fresh[OF _ _ this, of L u fd] a show "get L c u w = (Inr None, w)"
    by (auto split: sum.splits)
next
  assume "fst (get L c u w) = Inl e"
  then show "fst (isFileExpired c (add_ext (filenameForUrl L c u) ''.meta'') w) = Inr True"
    by (simp add: get_def Let_def await_def try_catch_def fs_access_def resolve_def
        isFileExpired_def fs_stat_def isExpired_eq is_file_def fs_readFile_def settle_def
        split: if_splits option.splits sum.splits prod.splits)
qed


text \<open>An empty cache, and an entry whose body is not gzip.\<close>

theorem get_misses_instead_of_raising_witness:
  "\<not> is_file empty_world (add_ext sample_file ''.data'') \<and>
   get sample_lib sample_cache ''http://a'' empty_world = (Inr None, empty_world) \<and>
   gunzip sample_lib ''garbage'' = Inl Z_DATA_ERROR \<and>
   get sample_lib sample_cache ''http://a'' corrupt_world = (Inr None, corrupt_world)"
proof -
  let ?f = "filenameForUrl sample_lib sample_cache ''http://a''"
  have 1: "\<not> (is_file empty_world (add_ext ?f ''.data'') \<or> is_dir empty_world (add_ext ?f ''.data''))
    \<or> \<not> (is_file empty_world (add_ext ?f ''.meta'') \<or> is_dir empty_world (add_ext ?f ''.meta''))"
    by (simp add: sample_filename sample_file_def add_ext_def empty_world_def is_file_def is_dir_def)
  have 2: "map_of (files corrupt_world) (add_ext ?f ''.data'') = Some \<lparr>data = ''garbage'', mtime = 1000000\<rparr>"
    by (simp add: corrupt_world_def update_conv' sample_filename)
  have 3: \<open>map_of (files corrupt_world) (add_ext ?f ''.meta'') =
      Some \<lparr>data = ''{"statusCode":200,"headers":{"content-type":"text/html"}}'', mtime = 1000005\<rparr>\<close>
    by (simp add: corrupt_world_def update_conv' sample_filename cached_world_eq)
      (simp add: sample_file_def add_ext_def)
  have 4: \<open>\<not> ttl sample_cache \<le> of_int (now corrupt_world -
      mtime \<lparr>data = ''{"statusCode":200,"headers":{"content-type":"text/html"}}'', mtime = 1000005\<rparr>) / 1000\<close>
    by (simp add: corrupt_world_def cached_world_eq sample_cache_def)
  have 5: "gunzip sample_lib (data \<lparr>data = ''garbage'', mtime = 1000000\<rparr>) = Inl Z_DATA_ERROR"
    by (simp add: sample_lib_def)
  have 6: "\<not> is_file empty_world (add_ext sample_file ''.data'')"
    by (simp add: sample_file_def add_ext_def empty_world_def is_file_def)
  have A: "get sample_lib sample_cache ''http://a'' empty_world = (Inr None, empty_world)"
    using get_misses_instead_of_raising[where w = empty_world and L = sample_lib
        and c = sample_cache and u = "''http://a''"] 1
    by blast
  have B: "get sample_lib sample_cache ''http://a'' corrupt_world = (Inr None, corrupt_world)"
    using get_misses_instead_of_raising[where w = corrupt_world and L = sample_lib
        and c = sample_cache and u = "''http://a''"
        and fd = "\<lparr>data = ''garbage'', mtime = 1000000\<rparr>" and ez = Z_DATA_ERROR] 2 3 4 5
    by blast
  from A B 5 6 show ?thesis by simp
qed

text \<open>
  C6. The sample entry is expired and the file system refuses to remove its \<^verbatim>\<open>.meta\<close> file:
  \<^verbatim>\<open>get\<close> rejects with \<^verbatim>\<open>EACCES\<close>, logs nothing, and the rejection passes through
  \<^verbatim>\<open>requestReceived\<close> to the request pipeline.
\<close>
theorem get_raises_when_removal_is_refused:
  "expired_at sample_cache (now readonly_stale_world) 1000005 \<and>
   get sample_lib sample_cache ''http://a'' readonly_stale_world = (Inl EACCES, readonly_stale_world) \<and>
   requestReceived sample_lib sample_config (sample_request\<lparr>req_headers := []\<rparr>) readonly_stale_world
     = (Inl EACCES, readonly_stale_world)"
proof -
  let ?f = "filenameForUrl sample_lib sample_cache ''http://a''"
  have d: "is_file readonly_stale_world (add_ext ?f ''.data'') \<or> is_dir readonly_stale_world (add_ext ?f ''.data'')"
    by (simp add: sample_filename readonly_stale_world_def is_file_def stale_world_facts)
  have m: \<open>map_of (files readonly_stale_world) (add_ext ?f ''.meta'') =
      Some \<lparr>data = ''{"statusCode":200,"headers":{"content-type":"text/html"}}'', mtime = 1000005\<rparr>\<close>
    by (simp add: sample_filename readonly_stale_world_def stale_world_facts)
  have e: "expired_at sample_cache (now readonly_stale_world) 1000005"
    by (simp add: expired_at_def readonly_stale_world_def stale_world_facts sample_cache_def)
  have g: "get sample_lib sample_cache ''http://a'' readonly_stale_world = (Inl EACCES, readonly_stale_world)"
    using get_expired[OF d m] e m
    by (simp add: await_def fs_unlink_def is_file_def) (simp add: sample_filename readonly_stale_world_def)
  have "requestReceived sample_lib sample_config (sample_request\<lparr>req_headers := []\<rparr>) readonly_stale_world
     = (Inl EACCES, readonly_stale_world)"
    by (simp add: requestReceived_def sample_request_def sample_config_def await_def g)
  with e g show ?thesis by simp
qed

section \<open>Removing an entry\<close>

text \<open>
  C10. \<^verbatim>\<open>removeExpiredCacheUrl\<close> never rejects, so neither does a second call after a
  first; and when the entry's \<^verbatim>\<open>.data\<close> file is already absent the call only logs the
  \<^verbatim>\<open>ENOENT\<close> it caught and changes nothing else.
\<close>
theorem removeExpiredCacheUrl_twice:
  "fst (removeExpiredCacheUrl L c u w) = Inr () \<and>
   fst (removeExpiredCacheUrl L c u (snd (removeExpiredCacheUrl L c u w))) = Inr () \<and>
   (\<not> is_file w (add_ext (filenameForUrl L c u) ''.data'')
    \<and> \<not> is_dir w (add_ext (filenameForUrl L c u) ''.data'')
    \<longrightarrow> removeExpiredCacheUrl L c u w = (Inr (), w\<lparr>logs := logs w @ [ErrorRemovingUrl u ENOENT]\<rparr>))"
  by (simp add: removeExpiredCacheUrl_Inr)
    (simp add: removeExpiredCacheUrl_def Let_def try_catch_def await_def fs_unlink_def log_msg_def)

text \<open>
  On the empty cache the call logs \<^verbatim>\<open>ENOENT\<close> and returns; on the cached world a second
  call after the first returns too.
\<close>

theorem removeExpiredCacheUrl_twice_witness:
  "\<not> is_file empty_world (add_ext (filenameForUrl sample_lib sample_cache ''http://a'') ''.data'') \<and>
   \<not> is_dir empty_world (add_ext (filenameForUrl sample_lib sample_cache ''http://a'') ''.data'') \<and>
   removeExpiredCacheUrl sample_lib sample_cache ''http://a'' empty_world
     = (Inr (), empty_world\<lparr>logs := [ErrorRemovingUrl ''http://a'' ENOENT]\<rparr>) \<and>
   fst (removeExpiredCacheUrl sample_lib sample_cache ''http://a''
         (snd (removeExpiredCacheUrl sample_lib sample_cache ''http://a'' cached_world))) = Inr ()"
proof -
  have 1: "\<not> is_file empty_world (add_ext (filenameForUrl sample_lib sample_cache ''http://a'') ''.data'')
    \<and> \<not> is_dir empty_world (add_ext (filenameForUrl sample_lib sample_cache ''http://a'') ''.data'')"
    by (simp add: sample_filename sample_file_def add_ext_def empty_world_def is_file_def is_dir_def)
  have 2: "logs empty_world = []" by (simp add: empty_world_def)
  show ?thesis
    using removeExpiredCacheUrl_twice[of sample_lib sample_cache "''http://a''" empty_world]
      removeExpiredCacheUrl_twice[of sample_lib sample_cache "''http://a''" cached_world] 1 2
    by simp
qed

section \<open>Storing and reading back\<close>

text \<open>
  C1. With \<^verbatim>\<open>CACHE_TTL=2592000\<close> (30 days) an entry does not survive the millisecond after
  \<^verbatim>\<open>set\<close>. \<^verbatim>\<open>set\<close> asks for a timer of \<open>ttl * 1000\<close> = 2592000000 ms, which is above
  \<open>TIMEOUT_MAX\<close>, so the timer it arms has a delay of 1 ms. After \<^verbatim>\<open>set("http://a", 200,
  {"content-type": "text/html", "date": "X"}, "hi")\<close> on an empty cache both files are there,
  and a \<^verbatim>\<open>get("http://a")\<close> at that very instant returns the entry. One millisecond later the
  \<^verbatim>\<open>.meta\<close> file, written at 1000005, is 30 days short of expiry, but the timer has run
  \<^verbatim>\<open>removeExpiredCacheUrl\<close>: both files are gone, no timer is left, and \<^verbatim>\<open>get("http://a")\<close>
  returns \<^verbatim>\<open>null\<close>.
\<close>
theorem set_then_get_loses_entry_when_timer_overflows:
  "ttl month_cache * 1000 = 2592000000 \<and>
   TIMEOUT_MAX < ttl month_cache * 1000 \<and>
   timers month_world =
     [\<lparr>callback = RemoveExpiredCacheUrl ''http://a'', delay_ms = 1, armed_at = now month_world\<rparr>] \<and>
   both_files month_world sample_file \<and>
   map_option mtime (map_of (files month_world) (add_ext sample_file ''.meta'')) = Some 1000005 \<and>
   \<not> expired_at month_cache (now month_world + 1) 1000005 \<and>
   fst (get sample_lib month_cache ''http://a'' month_world) =
     Inr (Some \<lparr>statusCode = 200, headers = [(''content-type'', ''text/html'')], content = ''hi''\<rparr>) \<and>
   no_files (elapse sample_lib month_cache (now month_world + 1) month_world) sample_file \<and>
   timers (elapse sample_lib month_cache (now month_world + 1) month_world) = [] \<and>
   fst (get sample_lib month_cache ''http://a''
          (elapse sample_lib month_cache (now month_world + 1) month_world)) = Inr None"
  by code_simp

text \<open>
  While no timer is due, time passing changes nothing but the clock, and \<^verbatim>\<open>get\<close> after
  \<^verbatim>\<open>set\<close> returns what was stored.
\<close>

lemma elapse_no_due:
  assumes "\<forall>tm \<in> set (timers w). \<not> due t tm"
  shows "elapse L c t w = w\<lparr>now := t\<rparr>"
proof -
  from assms have "filter (due t) (timers w) = []" "filter (\<lambda>tm. \<not> due t tm) (timers w) = timers w"
    by (simp_all add: filter_empty_conv filter_id_conv)
  then show ?thesis by (simp add: elapse_def)
qed

lemma set_then_get_before_timers:
  assumes "storable w (filenameForUrl L c u)"
    and "gunzip L (gzip L B) = Inr B"
    and "JSON_parse L (JSON_stringify L \<lparr>statusCode = 200, headers = filteredHeaders H\<rparr>)
           = Inr \<lparr>statusCode = 200, headers = filteredHeaders H\<rparr>"
    and "\<not> expired_at c t (now w + write_ms w)"
    and "\<forall>tm \<in> set (timers (snd (set_entry L c u 200 H B w))). \<not> due t tm"
  shows "fst (get L c u (elapse L c t (snd (set_entry L c u 200 H B w)))) =
           Inr (Some \<lparr>statusCode = 200,
                       headers = filter (\<lambda>(key, _). toLowerCase key \<notin> set nonCacheableHeaders) H,
                       content = B\<rparr>)"
  using get_after_set[OF assms(1) assms(4), of 200 H B] assms(2,3) elapse_no_due[OF assms(5)]
  by (simp add: filteredHeaders_def)

text \<open>
  When \<open>ttl * 1000\<close> is a delay that Node keeps, the timer armed by \<^verbatim>\<open>set\<close> is not due before
  the entry expires, and the round trip holds for as long as the entry is unexpired. The
  default \<open>ttl\<close> of 86400 s is of that kind.
\<close>

lemma set_timer_not_due_before_expiry:
  assumes "storable w (filenameForUrl L c u)"
    and "1 \<le> ttl c * 1000" and "ttl c * 1000 \<le> TIMEOUT_MAX"
    and "0 \<le> write_ms w"
    and "\<not> expired_at c t (now w + write_ms w)"
    and "\<forall>tm \<in> set (timers w). \<not> due t tm"
  shows "\<forall>tm \<in> set (timers (snd (set_entry L c u sc H B w))). \<not> due t tm"
proof -
  from set_entry_ok[OF assms(1), of sc H B] have
    t: "timers (snd (set_entry L c u sc H B w)) =
          timers w @ [\<lparr>callback = RemoveExpiredCacheUrl u, delay_ms = timer_delay (ttl c * 1000),
                        armed_at = now w + write_ms w + write_ms w\<rparr>]"
    by auto
  have d: "timer_delay (ttl c * 1000) = ttl c * 1000"
    using assms(2,3) by (simp add: timer_delay_def)
  from assms(5) have "of_int (t - (now w + write_ms w)) < ttl c * 1000"
    by (simp add: expired_at_def field_simps)
  moreover from assms(4) have "(of_int (t - (now w + write_ms w)) :: rat)
       \<ge> of_int (t - (now w + write_ms w + write_ms w))"
    by simp
  ultimately have "of_int t < (of_int (now w + write_ms w + write_ms w) :: rat) + ttl c * 1000"
    by (simp add: algebra_simps)
  then have "\<not> due t \<lparr>callback = RemoveExpiredCacheUrl u, delay_ms = timer_delay (ttl c * 1000),
                        armed_at = now w + write_ms w + write_ms w\<rparr>"
    by (simp add: due_def due_time_def d)
  with assms(6) show ?thesis by (simp add: t)
qed

lemma set_then_get_within_timer_range:
  assumes "storable w (filenameForUrl L c u)"
    and "gunzip L (gzip L B) = Inr B"
    and "JSON_parse L (JSON_stringify L \<lparr>statusCode = 200, headers = filteredHeaders H\<rparr>)
           = Inr \<lparr>statusCode = 200, headers = filteredHeaders H\<rparr>"
    and "\<not> expired_at c t (now w + write_ms w)"
    and "1 \<le> ttl c * 1000" and "ttl c * 1000 \<le> TIMEOUT_MAX"
    and "0 \<le> write_ms w"
    and "\<forall>tm \<in> set (timers w). \<not> due t tm"
  shows "fst (get L c u (elapse L c t (snd (set_entry L c u 200 H B w)))) =
           Inr (Some \<lparr>statusCode = 200,
                       headers = filter (\<lambda>(key, _). toLowerCase key \<notin> set nonCacheableHeaders) H,
                       content = B\<rparr>)"
  using set_then_get_before_timers[OF assms(1-4)]
    set_timer_not_due_before_expiry[OF assms(1) assms(5-7) assms(4) assms(8)]
  by blast

text \<open>
  C3. After a \<^verbatim>\<open>set\<close> whose writes went through, no entry that a later \<^verbatim>\<open>get\<close> of the same
  URL returns has, among its header names, a name passed to \<^verbatim>\<open>set\<close> whose lower-cased form
  is in the deny-list.
\<close>
theorem denied_headers_never_returned:
  assumes "storable w (filenameForUrl L c u)"
    and "JSON_parse L (JSON_stringify L \<lparr>statusCode = sc, headers = filteredHeaders H\<rparr>)
           = Inr \<lparr>statusCode = sc, headers = filteredHeaders H\<rparr>"
    and "fst (get L c u ((snd (set_entry L c u sc H B w))\<lparr>now := t\<rparr>)) = Inr (Some e)"
  shows "\<forall>(key, val) \<in> set H.
           toLowerCase key \<in> set nonCacheableHeaders \<longrightarrow> key \<notin> fst ` set (headers e)"
  using get_after_set_Some(1)[OF assms]
  by (auto simp add: filteredHeaders_def)

text \<open>The \<^verbatim>\<open>date\<close> header of the sample call is not in what \<^verbatim>\<open>get\<close> returns.\<close>

theorem denied_headers_never_returned_witness:
  "(''date'', ''X'') \<in> set sample_headers \<and> toLowerCase ''date'' \<in> set nonCacheableHeaders \<and>
   fst (get sample_lib sample_cache ''http://a'' cached_world) =
     Inr (Some \<lparr>statusCode = 200, headers = [(''content-type'', ''text/html'')], content = ''hi''\<rparr>) \<and>
   ''date'' \<notin> fst ` set (headers \<lparr>statusCode = 200, headers = [(''content-type'', ''text/html'')],
                                    content = ''hi''\<rparr>)"
proof -
  let ?e = "\<lparr>statusCode = 200, headers = [(''content-type'', ''text/html'')], content = ''hi''\<rparr>"
  have 1: "storable empty_world (filenameForUrl sample_lib sample_cache ''http://a'')"
    by (simp add: sample_filename storable_empty_world)
  have 2: "JSON_parse sample_lib
             (JSON_stringify sample_lib \<lparr>statusCode = 200, headers = filteredHeaders sample_headers\<rparr>)
           = Inr \<lparr>statusCode = 200, headers = filteredHeaders sample_headers\<rparr>"
    by (simp add: sample_filtered sample_stringify sample_parse)
  have fresh: "\<not> expired_at sample_cache (now cached_world) (now empty_world + write_ms empty_world)"
    by (simp add: expired_at_def cached_world_eq empty_world_def sample_cache_def)
  have w: "(snd (set_entry sample_lib sample_cache ''http://a'' 200 sample_headers ''hi'' empty_world))
             \<lparr>now := now cached_world\<rparr> = cached_world"
    by (simp add: cached_world_def)
  have 3: "fst (get sample_lib sample_cache ''http://a''
             ((snd (set_entry sample_lib sample_cache ''http://a'' 200 sample_headers ''hi'' empty_world))
                \<lparr>now := now cached_world\<rparr>)) = Inr (Some ?e)"
    using get_after_set[OF 1 fresh, of 200 sample_headers "''hi''"]
    by (simp add: sample_filtered sample_stringify sample_parse sample_gzip sample_gunzip)
  have 4: "(''date'', ''X'') \<in> set sample_headers" by (simp add: sample_headers_def)
  have 5: "toLowerCase ''date'' \<in> set nonCacheableHeaders" by (simp add: sample_lower sample_deny)
  from denied_headers_never_returned[OF 1 2 3] 4 5
  have "''date'' \<notin> fst ` set (headers ?e)" by blast
  with 3 4 5 show ?thesis by (simp add: w)
qed

text \<open>
  C8, as stated, fails: \<^verbatim>\<open>set\<close> lower-cases a header name only to look it up in the
  deny-list and stores the name as the caller spelled it. Stored with the header
  \<^verbatim>\<open>Content-Type\<close>, the sample entry comes back with the key \<^verbatim>\<open>Content-Type\<close>, which is
  not its own lower-cased form.
\<close>
theorem stored_header_names_keep_case:
  "fst (get sample_lib sample_cache ''http://a''
         (snd (set_entry sample_lib sample_cache ''http://a'' 200
                 [(''Content-Type'', ''text/html'')] ''hi'' empty_world))) =
     Inr (Some \<lparr>statusCode = 200, headers = [(''Content-Type'', ''text/html'')], content = ''hi''\<rparr>) \<and>
   toLowerCase ''Content-Type'' \<noteq> ''Content-Type''"
proof -
  let ?w = "snd (set_entry sample_lib sample_cache ''http://a'' 200
                 [(''Content-Type'', ''text/html'')] ''hi'' empty_world)"
  have 1: "storable empty_world (filenameForUrl sample_lib sample_cache ''http://a'')"
    by (simp add: sample_filename storable_empty_world)
  have fresh: "\<not> expired_at sample_cache (now ?w) (now empty_world + write_ms empty_world)"
    using set_entry_ok[OF 1, of 200 "[(''Content-Type'', ''text/html'')]" "''hi''"]
    by (auto simp add: expired_at_def empty_world_def sample_cache_def)
  have "?w\<lparr>now := now ?w\<rparr> = ?w" by simp
  with get_after_set[OF 1 fresh, of 200 "[(''Content-Type'', ''text/html'')]" "''hi''"]
  show ?thesis
    by (simp add: sample_filtered_upper sample_stringify_upper sample_parse_upper sample_gzip
        sample_gunzip sample_lower)
qed

text \<open>
  C8, amended. The header names of the stored metadata are names the caller passed,
  unchanged: the headers that a later \<^verbatim>\<open>get\<close> returns are the caller's headers without
  the deny-listed ones, so they are lower-cased whenever the caller's names were.
\<close>

theorem stored_header_names_are_callers:
  assumes "storable w (filenameForUrl L c u)"
    and "JSON_parse L (JSON_stringify L \<lparr>statusCode = sc, headers = filteredHeaders H\<rparr>)
           = Inr \<lparr>statusCode = sc, headers = filteredHeaders H\<rparr>"
    and "fst (get L c u ((snd (set_entry L c u sc H B w))\<lparr>now := t\<rparr>)) = Inr (Some e)"
  shows "headers e = filter (\<lambda>(key, _). toLowerCase key \<notin> set nonCacheableHeaders) H \<and>
         set (headers e) \<subseteq> set H \<and>
         ((\<forall>key \<in> fst ` set H. toLowerCase key = key)
            \<longrightarrow> (\<forall>key \<in> fst ` set (headers e). toLowerCase key = key))"
  using get_after_set_Some(1)[OF assms]
  by (auto simp add: filteredHeaders_def)

text \<open>The sample call passes lower-cased names and gets lower-cased names back.\<close>

theorem stored_header_names_are_callers_witness:
  "map fst sample_headers = [''content-type'', ''date''] \<and>
   toLowerCase ''content-type'' = ''content-type'' \<and> toLowerCase ''date'' = ''date'' \<and>
   fst (get sample_lib sample_cache ''http://a'' cached_world) =
     Inr (Some \<lparr>statusCode = 200, headers = [(''content-type'', ''text/html'')], content = ''hi''\<rparr>) \<and>
   set (headers \<lparr>statusCode = 200, headers = [(''content-type'', ''text/html'')], content = ''hi''\<rparr>)
     \<subseteq> set sample_headers"
proof -
  let ?e = "\<lparr>statusCode = 200, headers = [(''content-type'', ''text/html'')], content = ''hi''\<rparr>"
  have 1: "storable empty_world (filenameForUrl sample_lib sample_cache ''http://a'')"
    by (simp add: sample_filename storable_empty_world)
  have 2: "JSON_parse sample_lib
             (JSON_stringify sample_lib \<lparr>statusCode = 200, headers = filteredHeaders sample_headers\<rparr>)
           = Inr \<lparr>statusCode = 200, headers = filteredHeaders sample_headers\<rparr>"
    by (simp add: sample_filtered sample_stringify sample_parse)
  have fresh: "\<not> expired_at sample_cache (now cached_world) (now empty_world + write_ms empty_world)"
    by (simp add: expired_at_def cached_world_eq empty_world_def sample_cache_def)
  have w: "(snd (set_entry sample_lib sample_cache ''http://a'' 200 sample_headers ''hi'' empty_world))
             \<lparr>now := now cached_world\<rparr> = cached_world"
    by (simp add: cached_world_def)
  have 3: "fst (get sample_lib sample_cache ''http://a''
             ((snd (set_entry sample_lib sample_cache ''http://a'' 200 sample_headers ''hi'' empty_world))
                \<lparr>now := now cached_world\<rparr>)) = Inr (Some ?e)"
    using get_after_set[OF 1 fresh, of 200 sample_headers "''hi''"]
    by (simp add: sample_filtered sample_stringify sample_parse sample_gzip sample_gunzip)
  have 4: "map fst sample_headers = [''content-type'', ''date'']"
    by (simp add: sample_headers_def)
  from stored_header_names_are_callers[OF 1 2 3]
  have "set (headers ?e) \<subseteq> set sample_headers" by blast
  with 3 4 show ?thesis by (simp add: w sample_lower)
qed

section \<open>The lookup hook\<close>

text \<open>
  C9. For a \<^verbatim>\<open>GET\<close> request whose \<^verbatim>\<open>cache-control\<close> header is \<^verbatim>\<open>no-cache\<close>,
  \<^verbatim>\<open>requestReceived\<close> answers \<^verbatim>\<open>next()\<close> without reading the cache, whatever the cache
  holds: the world and the request (its \<^verbatim>\<open>fromCache\<close> flag too) stay as they were. If the
  response is then eligible and the file system accepts the writes, \<^verbatim>\<open>beforeSend\<close> stores
  it: both files of the URL hold the new body and metadata.
\<close>
theorem no_cache_request_skips_lookup_but_is_stored:
  assumes "req_method req = ''GET''"
    and "map_of (req_headers req) ''cache-control'' = Some ''no-cache''"
  shows "requestReceived L cfg req w = (Inr (Next, req), w) \<and>
    (prerender_statusCode req \<in> set (CACHE_STATUS_CODES cfg) \<and> \<not> fromCache req
     \<and> storable w (filenameForUrl L (the_cache cfg) (prerender_url req))
     \<longrightarrow> fst (beforeSend L cfg req w) = Inr Next
       \<and> map_of (files (snd (beforeSend L cfg req w)))
            (add_ext (filenameForUrl L (the_cache cfg) (prerender_url req)) ''.data'')
          = Some \<lparr>data = gzip L (case prerender_content req of None \<Rightarrow> [] | Some b \<Rightarrow> b),
                  mtime = now w\<rparr>
       \<and> map_of (files (snd (beforeSend L cfg req w)))
            (add_ext (filenameForUrl L (the_cache cfg) (prerender_url req)) ''.meta'')
          = Some \<lparr>data = JSON_stringify L
                     \<lparr>statusCode = prerender_statusCode req,
                      headers = filteredHeaders
                        (case prerender_headers req of None \<Rightarrow> [] | Some hs \<Rightarrow> hs)\<rparr>,
                  mtime = now w + write_ms w\<rparr>)"
proof (intro conjI impI)
  show "requestReceived L cfg req w = (Inr (Next, req), w)"
    using assms by (simp add: requestReceived_def resolve_def)
next
  let ?f = "filenameForUrl L (the_cache cfg) (prerender_url req)"
  let ?hs = "case prerender_headers req of None \<Rightarrow> [] | Some hs \<Rightarrow> hs"
  let ?b = "case prerender_content req of None \<Rightarrow> [] | Some b \<Rightarrow> b"
  let ?w = "w\<lparr>logs := logs w @ [Caching (prerender_url req) ?f]\<rparr>"
  assume a: "prerender_statusCode req \<in> set (CACHE_STATUS_CODES cfg) \<and> \<not> fromCache req
     \<and> storable w ?f"
  then have st: "storable ?w ?f" by simp
  have b: "beforeSend L cfg req w =
      await (set_entry L (the_cache cfg) (prerender_url req) (prerender_statusCode req) ?hs ?b)
        (\<lambda>_. resolve Next) ?w"
    using assms(1) a by (simp add: beforeSend_def await_log_msg)
  have s: "snd (beforeSend L cfg req w) =
      snd (set_entry L (the_cache cfg) (prerender_url req) (prerender_statusCode req) ?hs ?b ?w)"
    by (simp add: b snd_await_resolve)
  show "fst (beforeSend L cfg req w) = Inr Next"
    using set_entry_files(3)[OF st, of "prerender_statusCode req" ?hs ?b]
    by (cases "set_entry L (the_cache cfg) (prerender_url req) (prerender_statusCode req) ?hs ?b ?w")
      (simp add: b await_def resolve_def)
  show "map_of (files (snd (beforeSend L cfg req w))) (add_ext ?f ''.data'')
          = Some \<lparr>data = gzip L ?b, mtime = now w\<rparr>"
    using set_entry_files(1)[OF st, of "prerender_statusCode req" ?hs ?b] by (simp add: s)
  show "map_of (files (snd (beforeSend L cfg req w))) (add_ext ?f ''.meta'')
          = Some \<lparr>data = JSON_stringify L
                     \<lparr>statusCode = prerender_statusCode req, headers = filteredHeaders ?hs\<rparr>,
                  mtime = now w + write_ms w\<rparr>"
    using set_entry_files(2)[OF st, of "prerender_statusCode req" ?hs ?b] by (simp add: s)
qed

lemma get_cached_world:
  "get sample_lib sample_cache ''http://a'' cached_world =
     (Inr (Some \<lparr>statusCode = 200, headers = [(''content-type'', ''text/html'')], content = ''hi''\<rparr>),
      cached_world)"
proof -
  have 1: "storable empty_world (filenameForUrl sample_lib sample_cache ''http://a'')"
    by (simp add: sample_filename storable_empty_world)
  have fresh: "\<not> expired_at sample_cache (now cached_world) (now empty_world + write_ms empty_world)"
    by (simp add: expired_at_def cached_world_eq empty_world_def sample_cache_def)
  have w: "(snd (set_entry sample_lib sample_cache ''http://a'' 200 sample_headers ''hi'' empty_world))
             \<lparr>now := now cached_world\<rparr> = cached_world"
    by (simp add: cached_world_def)
  show ?thesis
    using get_after_set[OF 1 fresh, of 200 sample_headers "''hi''"]
    by (simp add: w sample_filtered sample_stringify sample_parse sample_gzip sample_gunzip)
qed

text \<open>
  The cached world holds a valid entry for the sample URL: without the header the request
  is served from it, with the header it is not, and the response is stored again.
\<close>

theorem no_cache_request_skips_lookup_but_is_stored_witness:
  \<open>requestReceived sample_lib sample_config sample_request cached_world
     = (Inr (Next, sample_request), cached_world) \<and>
   fst (requestReceived sample_lib sample_config (sample_request\<lparr>req_headers := []\<rparr>) cached_world)
     = Inr (Send 200 [(''content-type'', ''text/html'')] ''hi'',
            sample_request\<lparr>req_headers := [], fromCache := True\<rparr>) \<and>
   fst (beforeSend sample_lib sample_config sample_request cached_world) = Inr Next \<and>
   map_of (files (snd (beforeSend sample_lib sample_config sample_request cached_world)))
       (add_ext sample_file ''.meta'')
     = Some \<lparr>data = ''{"statusCode":200,"headers":{"content-type":"text/html"}}'',
             mtime = now cached_world + write_ms cached_world\<rparr>\<close>
proof -
  have 1: "req_method sample_request = ''GET''" by (simp add: sample_request_def)
  have 2: "map_of (req_headers sample_request) ''cache-control'' = Some ''no-cache''"
    by (simp add: sample_request_def)
  have 3: "prerender_statusCode sample_request \<in> set (CACHE_STATUS_CODES sample_config)
     \<and> \<not> fromCache sample_request
     \<and> storable cached_world
          (filenameForUrl sample_lib (the_cache sample_config) (prerender_url sample_request))"
    by (simp add: sample_request_def sample_config_def CACHE_STATUS_CODES_default_def sample_filename
        storable_cached_world)
  have 4: "fst (requestReceived sample_lib sample_config (sample_request\<lparr>req_headers := []\<rparr>) cached_world)
     = Inr (Send 200 [(''content-type'', ''text/html'')] ''hi'',
            sample_request\<lparr>req_headers := [], fromCache := True\<rparr>)"
    by (simp add: requestReceived_def sample_request_def sample_config_def await_def get_cached_world
        log_msg_def resolve_def)
  show ?thesis
    using no_cache_request_skips_lookup_but_is_stored[OF 1 2, of sample_lib sample_config cached_world] 3 4
    by (simp add: sample_request_def sample_config_def sample_filename sample_filtered sample_stringify)
qed

section \<open>The sweep keeps within \<open>sweep_rel\<close>\<close>

lemma sweep_rel_same:
  assumes "files w' = files w" "dirs w' = dirs w" "now w' = now w" "refused w' = refused w"
  shows "sweep_rel c d w w'"
  using assms by (auto simp add: sweep_rel_def)

lemma sweep_rel_refl: "sweep_rel c d w w"
  by (simp add: sweep_rel_same)

lemma sweep_rel_trans:
  assumes 1: "sweep_rel c d w w1" and 2: "sweep_rel c d w1 w2"
  shows "sweep_rel c d w w2"
proof -
  have A: "now w2 = now w" "refused w2 = refused w" "set (dirs w2) \<subseteq> set (dirs w)"
    using 1 2 by (auto simp add: sweep_rel_def)
  have B: "\<forall>p f. map_of (files w2) p = Some f \<longrightarrow> map_of (files w) p = Some f"
    using 1 2 by (simp add: sweep_rel_def)
  have C: "distinct (map fst (files w)) \<longrightarrow> distinct (map fst (files w2))"
    using 1 2 by (simp add: sweep_rel_def)
  have D: "\<forall>p f. map_of (files w) p = Some f \<and> map_of (files w2) p = None \<longrightarrow>
         strict_prefix d p \<and> expired_at c (now w) (mtime f) \<and> p \<notin> set (refused w) \<and>
         (endsWith (last p) ''.data'' \<or> endsWith (last p) ''.meta'')"
  proof (intro allI impI)
    fix p f
    assume a: "map_of (files w) p = Some f \<and> map_of (files w2) p = None"
    show "strict_prefix d p \<and> expired_at c (now w) (mtime f) \<and> p \<notin> set (refused w) \<and>
           (endsWith (last p) ''.data'' \<or> endsWith (last p) ''.meta'')"
    proof (cases "map_of (files w1) p")
      case None
      with a 1 show ?thesis unfolding sweep_rel_def by blast
    next
      case (Some f1)
      with 1 a have "f1 = f" unfolding sweep_rel_def by (metis option.inject)
      with Some a 2 have "strict_prefix d p \<and> expired_at c (now w1) (mtime f) \<and> p \<notin> set (refused w1) \<and>
           (endsWith (last p) ''.data'' \<or> endsWith (last p) ''.meta'')"
        unfolding sweep_rel_def by blast
      moreover from 1 have "now w1 = now w" "refused w1 = refused w" by (simp_all add: sweep_rel_def)
      ultimately show ?thesis by simp
    qed
  qed
  have E: "\<forall>q x. q \<in> set (dirs w) \<and> q \<notin> set (dirs w2) \<and> x \<noteq> [] \<and> butlast x = q \<longrightarrow>
         \<not> is_file w2 x \<and> \<not> is_dir w2 x"
  proof (intro allI impI)
    fix q x
    assume a: "q \<in> set (dirs w) \<and> q \<notin> set (dirs w2) \<and> x \<noteq> [] \<and> butlast x = q"
    show "\<not> is_file w2 x \<and> \<not> is_dir w2 x"
    proof (cases "q \<in> set (dirs w1)")
      case True
      with a 2 show ?thesis unfolding sweep_rel_def by blast
    next
      case False
      with a 1 have "\<not> is_file w1 x \<and> \<not> is_dir w1 x" unfolding sweep_rel_def by blast
      moreover from 2 have "set (dirs w2) \<subseteq> set (dirs w1)"
        "\<And>p f. map_of (files w2) p = Some f \<Longrightarrow> map_of (files w1) p = Some f"
        by (simp_all add: sweep_rel_def)
      ultimately show ?thesis
        by (cases "map_of (files w2) x") (auto simp add: is_file_def is_dir_def)
    qed
  qed
  show ?thesis
    unfolding sweep_rel_def using A B C D E by (intro conjI) assumption+
qed

lemma sweep_rel_below:
  assumes "sweep_rel c (path_join d k) w w'"
  shows "sweep_rel c d w w'"
proof -
  have "strict_prefix d (path_join d k)" by (auto simp add: path_join_def strict_prefix_def)
  then have "strict_prefix (path_join d k) p \<Longrightarrow> strict_prefix d p" for p
    by (rule prefix_order.less_trans)
  with assms show ?thesis unfolding sweep_rel_def by blast
qed

text \<open>The steps of the loop body.\<close>

lemma removeDirectoryIfEmpty_rel:
  assumes "removeDirectoryIfEmpty d0 w = (r, w')"
  shows "sweep_rel c d w w' \<and> r = Inr ()"
proof (cases "is_dir w d0 \<and> children w d0 = [] \<and> \<not> is_file w d0 \<and> d0 \<notin> set (refused w)")
  case True
  then have eq: "w' = w\<lparr>dirs := removeAll d0 (dirs w)\<rparr>" "r = Inr ()"
    using assms
    by (auto simp add: removeDirectoryIfEmpty_def try_catch_def await_def fs_readdir_def fs_rmdir_def)
  from True have "children w d0 = []" by simp
  then have nochild: "\<not> is_file w x \<and> \<not> is_dir w x" if "x \<noteq> []" "butlast x = d0" for x
    using that
    by (auto simp add: children_def is_file_def is_dir_def filter_empty_conv map_of_eq_None_iff image_iff)
  show ?thesis
    unfolding sweep_rel_def eq using nochild
    by (auto simp add: is_file_def is_dir_def)
next
  case False
  then have "files w' = files w \<and> dirs w' = dirs w \<and> now w' = now w \<and> refused w' = refused w \<and> r = Inr ()"
    using assms
    by (auto simp add: removeDirectoryIfEmpty_def try_catch_def await_def fs_readdir_def fs_rmdir_def resolve_def
        split: if_splits)
  then show ?thesis by (simp add: sweep_rel_same)
qed


lemma fs_unlink_rel:
  assumes "fs_unlink p w = (Inr x, w1)"
    and "strict_prefix d p"
    and "\<forall>f. map_of (files w) p = Some f \<longrightarrow> expired_at c (now w) (mtime f)"
    and "endsWith (last p) ''.data'' \<or> endsWith (last p) ''.meta''"
  shows "sweep_rel c d w w1"
proof -
  from assms(1) have eq: "w1 = w\<lparr>files := AList.delete p (files w)\<rparr>" and nr: "p \<notin> set (refused w)"
    by (auto simp add: fs_unlink_def split: if_splits)
  show ?thesis
    unfolding sweep_rel_def eq using assms(2,3,4) nr
    by (auto simp add: delete_conv' distinct_delete is_file_def is_dir_def split: if_splits)
qed

lemma removeExpiredCacheFile_rel:
  assumes "removeExpiredCacheFile p w = (r, w')"
    and "strict_prefix d p"
    and "\<forall>f. map_of (files w) p = Some f \<longrightarrow> expired_at c (now w) (mtime f)"
    and "endsWith (last p) ''.data'' \<or> endsWith (last p) ''.meta''"
  shows "sweep_rel c d w w' \<and> r = Inr ()"
proof (cases "fs_unlink p w")
  case (Pair r1 w1)
  show ?thesis
  proof (cases r1)
    case (Inl e)
    with Pair have "w1 = w" by (auto simp add: fs_unlink_def split: if_splits)
    with Pair Inl assms(1) have "w' = w\<lparr>logs := logs w @ [ErrorRemovingFile p e]\<rparr> \<and> r = Inr ()"
      by (auto simp add: removeExpiredCacheFile_def try_catch_def await_def log_msg_def)
    then show ?thesis by (simp add: sweep_rel_same)
  next
    case (Inr x)
    obtain r2 w2 where 2: "removeDirectoryIfEmpty (dirname p) w1 = (r2, w2)" by fastforce
    from removeDirectoryIfEmpty_rel[OF 2, of c d] have s2: "sweep_rel c d w1 w2" and r2: "r2 = Inr ()"
      by simp_all
    from Pair Inr have s1: "sweep_rel c d w w1"
      using fs_unlink_rel assms(2,3,4) by blast
    from Pair Inr 2 r2 assms(1) have "w' = w2 \<and> r = Inr ()"
      by (auto simp add: removeExpiredCacheFile_def try_catch_def await_def)
    with sweep_rel_trans[OF s1 s2] show ?thesis by simp
  qed
qed

lemma processFile_rel:
  assumes "processFile c (path_join dir (name entry)) entry (t, w) = (r, t', w')"
  shows "sweep_rel c dir w w'"
proof (cases "endsWith (name entry) ''.data'' \<or> endsWith (name entry) ''.meta''")
  case False
  with assms show ?thesis by (auto simp add: processFile_def sweep_rel_refl)
next
  case True
  let ?p = "path_join dir (name entry)"
  show ?thesis
  proof (cases "fs_stat ?p w")
    case (Pair r1 w1)
    then have w1: "w1 = w" by (auto simp add: fs_stat_def split: option.splits if_splits)
    show ?thesis
    proof (cases r1)
      case (Inl e)
      with Pair True assms w1 show ?thesis by (auto simp add: processFile_def sweep_rel_refl)
    next
      case (Inr st)
      show ?thesis
      proof (cases "expired_at c (now w) (st_mtime st)")
        case False
        with Pair Inr True assms w1
        have "files w' = files w" "dirs w' = dirs w" "now w' = now w" "refused w' = refused w"
          by (auto simp add: processFile_def isExpired_eq setTimeout_def Let_def)
        then show ?thesis by (rule sweep_rel_same)
      next
        case ex: True
        obtain r3 w3 where 3: "removeExpiredCacheFile ?p w = (r3, w3)" by fastforce
        have sp: "strict_prefix dir ?p" by (auto simp add: path_join_def strict_prefix_def)
        have f: "\<forall>f. map_of (files w) ?p = Some f \<longrightarrow> expired_at c (now w) (mtime f)"
          using Pair Inr ex by (auto simp add: fs_stat_def split: option.splits if_splits)
        have l: "endsWith (last ?p) ''.data'' \<or> endsWith (last ?p) ''.meta''"
          using True by (simp add: path_join_def)
        from removeExpiredCacheFile_rel[OF 3 sp f l] have "sweep_rel c dir w w3" "r3 = Inr ()" by simp_all
        moreover from Pair Inr True assms w1 ex 3 \<open>r3 = Inr ()\<close> have "w' = w3"
          by (auto simp add: processFile_def isExpired_eq)
        ultimately show ?thesis by simp
      qed
    qed
  qed
qed

lemma sweep_invariant:
  "processDirectory n c dir tw = Some tw' \<Longrightarrow> sweep_rel c dir (snd tw) (snd tw')"
  "processEntries n c dir es tw = Some res \<Longrightarrow> sweep_rel c dir (snd tw) (snd (snd res))"
proof (induction n c dir tw and n c dir es tw arbitrary: tw' and res
    rule: processDirectory_processEntries.induct)
  case (1 c dir tw)
  then show ?case by simp
next
  case (2 n c dir tw)
  obtain r1 w1 where rd: "fs_readdir dir (snd tw) = (r1, w1)" by fastforce
  then have w1: "w1 = snd tw" by (auto simp add: fs_readdir_def split: if_splits)
  show ?case
  proof (cases r1)
    case (Inl e)
    with rd "2.prems" w1 have "snd tw' = (snd tw)\<lparr>logs := logs (snd tw) @ [ErrorCleaningDirectory dir e]\<rparr>"
      by (auto simp add: log_msg_def)
    then show ?thesis by (simp add: sweep_rel_same)
  next
    case (Inr entries)
    with rd "2.prems" obtain r2 t2 w2 where
      pe: "processEntries n c dir entries (fst tw, w1) = Some (r2, t2, w2)"
      by (auto split: option.splits)
    from "2.IH"[OF rd[symmetric, unfolded Inr] refl pe] w1
    have s: "sweep_rel c dir (snd tw) w2" by simp
    show ?thesis
    proof (cases r2)
      case (Inl e)
      with rd Inr pe "2.prems" have "snd tw' = w2\<lparr>logs := logs w2 @ [ErrorCleaningDirectory dir e]\<rparr>"
        by (auto simp add: log_msg_def)
      then have "sweep_rel c dir w2 (snd tw')" by (simp add: sweep_rel_same)
      with s show ?thesis by (rule sweep_rel_trans)
    next
      case (Inr u)
      obtain r3 w3 where 3: "removeDirectoryIfEmpty dir w2 = (r3, w3)" by fastforce
      from removeDirectoryIfEmpty_rel[OF 3, of c dir] have s3: "sweep_rel c dir w2 w3" and r3: "r3 = Inr ()"
        by simp_all
      from rd \<open>r1 = Inr entries\<close> pe Inr 3 r3 "2.prems" have "snd tw' = w3" by auto
      with sweep_rel_trans[OF s s3] show ?thesis by simp
    qed
  qed
next
  case (3 n c dir tw)
  then show ?case by (auto simp add: sweep_rel_refl)
next
  case (4 n c dir entry entries tw)
  let ?p = "path_join dir (name entry)"
  show ?case
  proof (cases "isDirectory entry")
    case True
    with "4.prems" obtain tw1 where pd: "processDirectory n c ?p tw = Some tw1"
      and pe: "processEntries n c dir entries tw1 = Some res"
      by (auto simp add: Let_def split: option.splits)
    from "4.IH"(1)[OF refl True pd] have "sweep_rel c ?p (snd tw) (snd tw1)" .
    then have s1: "sweep_rel c dir (snd tw) (snd tw1)" by (rule sweep_rel_below)
    from "4.IH"(2)[OF refl True pd pe] have s2: "sweep_rel c dir (snd tw1) (snd (snd res))" .
    from s1 s2 show ?thesis by (rule sweep_rel_trans)
  next
    case False
    obtain r1 t1 w1 where pf: "processFile c ?p entry tw = (r1, t1, w1)" by (metis prod_cases3)
    have s1: "sweep_rel c dir (snd tw) w1"
      using processFile_rel[of c dir entry "fst tw" "snd tw" r1 t1 w1] pf by simp
    show ?thesis
    proof (cases r1)
      case (Inl e)
      with pf False "4.prems" have "res = (Inl e, t1, w1)" by (auto simp add: Let_def)
      with s1 show ?thesis by simp
    next
      case (Inr u)
      with pf False "4.prems" have pe: "processEntries n c dir entries (t1, w1) = Some res"
        by (auto simp add: Let_def)
      from pf Inr have pf': "(Inr u, (t1, w1)) = processFile c ?p entry tw" by simp
      from "4.IH"(3)[OF refl False pf' refl pe] have s2: "sweep_rel c dir w1 (snd (snd res))" by simp
      from s1 s2 show ?thesis by (rule sweep_rel_trans)
    qed
  qed
qed

section \<open>The sweep returns\<close>

lemma length_path_join [simp]: "length (path_join d k) = Suc (length d)"
  by (simp add: path_join_def)

lemma children_dir_entry:
  assumes "e \<in> set (children w d)" "isDirectory e"
  shows "path_join d (name e) \<in> set (dirs w)"
  using assms by (auto simp add: children_def path_join_def)

lemma children_file_entry:
  assumes "e \<in> set (children w d)" "\<not> isDirectory e"
  shows "is_file w (path_join d (name e))"
  using assms
  by (auto simp add: children_def path_join_def is_file_def map_of_eq_None_iff image_iff) force

lemma enough_fuel:
  "0 < n \<Longrightarrow> \<forall>q \<in> set (dirs (snd tw)). length q < length dir + n
     \<Longrightarrow> processDirectory n c dir tw \<noteq> None"
  "\<forall>e \<in> set es. isDirectory e \<longrightarrow> 0 < n \<Longrightarrow>
   \<forall>q \<in> set (dirs (snd tw)). length q < length dir + 1 + n
     \<Longrightarrow> processEntries n c dir es tw \<noteq> None"
proof (induction n c dir tw and n c dir es tw rule: processDirectory_processEntries.induct)
  case (1 c dir tw)
  then show ?case by simp
next
  case (2 n c dir tw)
  obtain r1 w1 where rd: "fs_readdir dir (snd tw) = (r1, w1)" by fastforce
  then have w1: "w1 = snd tw" by (auto simp add: fs_readdir_def split: if_splits)
  show ?case
  proof (cases r1)
    case (Inl e)
    with rd show ?thesis by simp
  next
    case (Inr entries)
    with rd w1 have en: "entries = children (snd tw) dir"
      by (auto simp add: fs_readdir_def split: if_splits)
    have a: "\<forall>e \<in> set entries. isDirectory e \<longrightarrow> 0 < n"
    proof (intro ballI impI)
      fix e assume "e \<in> set entries" "isDirectory e"
      then have "path_join dir (name e) \<in> set (dirs (snd tw))"
        unfolding en by (rule children_dir_entry)
      with "2.prems"(2) have "length (path_join dir (name e)) < length dir + Suc n" by blast
      then show "0 < n" by simp
    qed
    have b: "\<forall>q \<in> set (dirs (snd (fst tw, w1))). length q < length dir + 1 + n"
      using "2.prems"(2) w1 by simp
    from "2.IH"[OF rd[symmetric, unfolded Inr] refl a b]
    have "processEntries n c dir entries (fst tw, w1) \<noteq> None" .
    with rd Inr show ?thesis
      by (auto split: prod.splits sum.splits)
  qed
next
  case (3 n c dir tw)
  then show ?case by simp
next
  case (4 n c dir entry entries tw)
  let ?p = "path_join dir (name entry)"
  have rest: "\<forall>e \<in> set entries. isDirectory e \<longrightarrow> 0 < n" using "4.prems"(1) by simp
  show ?case
  proof (cases "isDirectory entry")
    case True
    with "4.prems"(1) have n: "0 < n" by simp
    have b: "\<forall>q \<in> set (dirs (snd tw)). length q < length ?p + n"
      using "4.prems"(2) by simp
    from "4.IH"(1)[OF refl True n b] obtain tw1 where
      pd: "processDirectory n c ?p tw = Some tw1" by blast
    from sweep_invariant(1)[OF pd] have "set (dirs (snd tw1)) \<subseteq> set (dirs (snd tw))"
      by (simp add: sweep_rel_def)
    with "4.prems"(2) have b2: "\<forall>q \<in> set (dirs (snd tw1)). length q < length dir + 1 + n"
      by blast
    from "4.IH"(2)[OF refl True pd rest b2] pd True show ?thesis
      by (simp add: Let_def)
  next
    case False
    obtain r1 t1 w1 where pf: "processFile c ?p entry tw = (r1, t1, w1)" by (metis prod_cases3)
    have s1: "sweep_rel c dir (snd tw) w1"
      using processFile_rel[of c dir entry "fst tw" "snd tw" r1 t1 w1] pf by simp
    show ?thesis
    proof (cases r1)
      case (Inl e)
      with pf False show ?thesis by (simp add: Let_def)
    next
      case (Inr u)
      from s1 have "set (dirs w1) \<subseteq> set (dirs (snd tw))" by (simp add: sweep_rel_def)
      with "4.prems"(2) have b2: "\<forall>q \<in> set (dirs (snd (t1, w1))). length q < length dir + 1 + n"
        by auto
      from pf Inr have pf': "(Inr u, (t1, w1)) = processFile c ?p entry tw" by simp
      from "4.IH"(3)[OF refl False pf' refl rest b2] pf Inr False show ?thesis
        by (simp add: Let_def)
    qed
  qed
qed

lemma cleanUp_returns:
  assumes "enough n w"
  shows "\<exists>t w'. cleanUpCacheDirectory n c d w = Some (t, w') \<and> sweep_rel c d w w'"
proof -
  let ?t0 = "\<lparr>totalRemovedFiles = 0, totalRemovedSize = 0, totalTimersCreated = 0\<rparr>"
  let ?w1 = "w\<lparr>logs := logs w @ [RemovingExpired]\<rparr>"
  from assms have n: "0 < n" and b: "\<forall>q \<in> set (dirs (snd (?t0, ?w1))). length q < length d + n"
    by (auto simp add: enough_def)
  from enough_fuel(1)[OF n b] obtain t w2 where
    pd: "processDirectory n c d (?t0, ?w1) = Some (t, w2)" by fastforce
  from sweep_invariant(1)[OF pd] have "sweep_rel c d ?w1 w2" by simp
  moreover have "sweep_rel c d w ?w1" by (simp add: sweep_rel_same)
  ultimately have s: "sweep_rel c d w w2" using sweep_rel_trans by blast
  let ?w3 = "w2\<lparr>logs := logs w2 @ [Removed (totalRemovedFiles t) (totalRemovedSize t)
                                       (totalTimersCreated t)]\<rparr>"
  have "sweep_rel c d w2 ?w3" by (simp add: sweep_rel_same)
  with s have "sweep_rel c d w ?w3" using sweep_rel_trans by blast
  moreover have "cleanUpCacheDirectory n c d w = Some (t, ?w3)"
    using pd by (simp add: cleanUpCacheDirectory_def log_msg_def)
  ultimately show ?thesis by blast
qed

text \<open>The bound with which a timer runs the sweep is enough: that sweep returns.\<close>

lemma tree_bound_enough: "enough (tree_bound w) w"
proof -
  have "fold max xs (a::nat) = Max (set (a # xs))" for xs a
    using Max.set_eq_fold[of a xs] by simp
  then have "q \<in> set (dirs w) \<Longrightarrow> length q \<le> fold max (map length (dirs w)) 0" for q
    by simp
  then show ?thesis by (auto simp add: enough_def tree_bound_def less_Suc_eq_le)
qed

lemma timer_sweep_returns:
  "\<exists>t w'. cleanUpCacheDirectory (tree_bound w) c d w = Some (t, w')"
  using cleanUp_returns[OF tree_bound_enough] by blast

section \<open>The sweep keeps what is fresh and removes what is expired\<close>

lemma sweep_rel_keeps:
  assumes "sweep_rel c d w w'" "map_of (files w) p = Some f" "\<not> expired_at c (now w) (mtime f)"
  shows "map_of (files w') p = Some f"
proof (cases "map_of (files w') p")
  case None
  with assms show ?thesis unfolding sweep_rel_def by blast
next
  case (Some f')
  with assms(1) have "map_of (files w) p = Some f'" unfolding sweep_rel_def by blast
  with assms(2) Some show ?thesis by simp
qed

lemma sweep_rel_outside:
  assumes "sweep_rel c d w w'" "is_file w q" "\<not> strict_prefix d q"
  shows "is_file w' q"
  using assms unfolding sweep_rel_def is_file_def by (cases "map_of (files w') q") auto

text \<open>While \<open>p\<close> is a file, no directory above it has been removed.\<close>

lemma chain_kept:
  assumes s: "sweep_rel c d w w'"
    and f: "is_file w' p"
    and ch: "\<forall>q. prefix dir q \<and> strict_prefix q p \<longrightarrow> is_dir w q"
  shows "prefix dir q \<and> strict_prefix q p \<Longrightarrow> is_dir w' q"
proof (induction "length p - length q" arbitrary: q rule: less_induct)
  case less
  then have q: "prefix dir q" "strict_prefix q p" by simp_all
  then obtain x r where p: "p = q @ x # r"
    by (metis strict_prefixE' append.assoc append_Cons append_Nil)
  let ?q' = "q @ [x]"
  have b: "?q' \<noteq> []" "butlast ?q' = q" by simp_all
  have child: "is_file w' ?q' \<or> is_dir w' ?q'"
  proof (cases "r = []")
    case True
    with p f show ?thesis by simp
  next
    case False
    have "prefix dir ?q'" using q(1) by (simp add: prefix_def) (metis append.assoc)
    moreover have "strict_prefix ?q' p" using p False by (auto simp add: strict_prefix_def prefix_def)
    moreover have "length p - length ?q' < length p - length q" using p by simp
    ultimately have "is_dir w' ?q'" using less.hyps by blast
    then show ?thesis by simp
  qed
  from ch q have "q \<in> set (dirs w)" by (simp add: is_dir_def)
  with s child b show ?case
    unfolding sweep_rel_def is_dir_def by blast
qed

lemma sweep_pre_step:
  assumes s: "sweep_rel c d w w'" and pre: "sweep_pre c dir p w"
  shows "sweep_pre c dir p w'"
proof -
  from s have same: "now w' = now w" "refused w' = refused w"
    and nc: "\<And>p f. map_of (files w') p = Some f \<Longrightarrow> map_of (files w) p = Some f"
    and di: "distinct (map fst (files w)) \<longrightarrow> distinct (map fst (files w'))"
    by (simp_all add: sweep_rel_def)
  have ch: "is_file w' p \<longrightarrow> (\<forall>q. prefix dir q \<and> strict_prefix q p \<longrightarrow> is_dir w' q)"
  proof (intro impI allI)
    fix q
    assume f: "is_file w' p" and q: "prefix dir q \<and> strict_prefix q p"
    from f nc have "is_file w p" by (auto simp add: is_file_def)
    with pre have "\<forall>q. prefix dir q \<and> strict_prefix q p \<longrightarrow> is_dir w q" by (simp add: sweep_pre_def)
    from chain_kept[OF s f this q] show "is_dir w' q" .
  qed
  from pre same nc di ch show ?thesis
    unfolding sweep_pre_def by auto
qed


lemma removeDirectoryIfEmpty_files:
  "removeDirectoryIfEmpty d w = (r, w') \<Longrightarrow> files w' = files w \<and> r = Inr ()"
  by (auto simp add: removeDirectoryIfEmpty_def try_catch_def await_def fs_readdir_def fs_rmdir_def
      resolve_def split: if_splits)

lemma removeExpiredCacheFile_files:
  assumes "removeExpiredCacheFile p0 w = (r, w')"
  shows "r = Inr () \<and>
         (files w' = files w \<or>
          (is_file w p0 \<and> p0 \<notin> set (refused w) \<and> files w' = AList.delete p0 (files w))) \<and>
         (is_file w p0 \<and> p0 \<notin> set (refused w) \<longrightarrow> files w' = AList.delete p0 (files w))"
proof (cases "is_file w p0 \<and> p0 \<notin> set (refused w)")
  case True
  then have u: "fs_unlink p0 w = (Inr (), w\<lparr>files := AList.delete p0 (files w)\<rparr>)"
    by (simp add: fs_unlink_def)
  obtain r2 w2 where 2: "removeDirectoryIfEmpty (dirname p0) (w\<lparr>files := AList.delete p0 (files w)\<rparr>) = (r2, w2)"
    by fastforce
  from removeDirectoryIfEmpty_files[OF 2] u 2 assms True show ?thesis
    by (auto simp add: removeExpiredCacheFile_def try_catch_def await_def)
next
  case False
  then have "\<exists>e. fs_unlink p0 w = (Inl e, w)"
    by (simp add: fs_unlink_def)
  then obtain e where "fs_unlink p0 w = (Inl e, w)" by blast
  with assms False show ?thesis
    by (auto simp add: removeExpiredCacheFile_def try_catch_def await_def log_msg_def)
qed

lemma processFile_files:
  assumes "processFile c p0 entry (t, w) = (r, t1, w1)"
  shows "files w1 = files w \<or> files w1 = AList.delete p0 (files w)"
proof -
  obtain r3 w3 where 3: "removeExpiredCacheFile p0 w = (r3, w3)" by fastforce
  from removeExpiredCacheFile_files[OF 3] have
    "files w3 = files w \<or> files w3 = AList.delete p0 (files w)" "r3 = Inr ()" by auto
  with assms 3 show ?thesis
    by (auto simp add: processFile_def fs_stat_def isExpired_eq setTimeout_def Let_def
        split: if_splits option.splits)
qed

lemma processFile_only:
  assumes "processFile c p0 entry (t, w) = (r, t1, w1)" "q \<noteq> p0"
  shows "map_of (files w1) q = map_of (files w) q"
  using processFile_files[OF assms(1)] assms(2) by (auto simp add: delete_conv')

lemma processFile_Inr:
  assumes "processFile c p0 entry (t, w) = (r, t1, w1)" "is_file w p0"
  shows "r = Inr ()"
proof -
  obtain r3 w3 where 3: "removeExpiredCacheFile p0 w = (r3, w3)" by fastforce
  from removeExpiredCacheFile_files[OF 3] have "r3 = Inr ()" by simp
  with assms 3 show ?thesis
    by (auto simp add: processFile_def fs_stat_def isExpired_eq setTimeout_def Let_def is_file_def
        split: if_splits option.splits)
qed

lemma processFile_removes:
  assumes "processFile c p0 entry (t, w) = (r, t1, w1)"
    and "\<forall>f. map_of (files w) p0 = Some f \<longrightarrow> expired_at c (now w) (mtime f)"
    and "endsWith (name entry) ''.data'' \<or> endsWith (name entry) ''.meta''"
    and "p0 \<notin> set (refused w)"
  shows "map_of (files w1) p0 = None"
proof (cases "map_of (files w) p0")
  case None
  with processFile_files[OF assms(1)] show ?thesis by (auto simp add: delete_conv')
next
  case (Some f)
  then have f: "is_file w p0" by (simp add: is_file_def)
  obtain r3 w3 where 3: "removeExpiredCacheFile p0 w = (r3, w3)" by fastforce
  from removeExpiredCacheFile_files[OF 3] f assms(4)
  have "files w3 = AList.delete p0 (files w)" "r3 = Inr ()" by simp_all
  with assms Some 3 have "files w1 = AList.delete p0 (files w)"
    by (auto simp add: processFile_def fs_stat_def isExpired_eq)
  then show ?thesis by (simp add: delete_conv')
qed


lemma below_decompose:
  assumes "strict_prefix dir p"
  obtains r where "p = dir @ (p ! length dir) # r" and "length p = Suc (length dir + length r)"
proof -
  from assms obtain x r where p: "p = dir @ x # r"
    by (auto elim: strict_prefixE')
  then have "p ! length dir = x" by (simp add: nth_append)
  with p that show thesis by simp
qed

lemma below_child:
  assumes "strict_prefix dir p" "length dir + 1 < length p"
  shows "strict_prefix (path_join dir (p ! length dir)) p"
proof -
  from assms(1) obtain r where p: "p = dir @ (p ! length dir) # r"
    and l: "length p = Suc (length dir + length r)"
    by (rule below_decompose)
  from l assms(2) have "r \<noteq> []" by auto
  then have "strict_prefix (dir @ [p ! length dir]) (dir @ (p ! length dir) # r)"
    by (auto simp add: strict_prefix_def)
  with p show ?thesis by (simp add: path_join_def)
qed

lemma below_leaf:
  assumes "strict_prefix dir p" "\<not> length dir + 1 < length p"
  shows "p = path_join dir (p ! length dir)"
proof -
  from assms(1) obtain r where p: "p = dir @ (p ! length dir) # r"
    and l: "length p = Suc (length dir + length r)"
    by (rule below_decompose)
  from l assms(2) have "r = []" by auto
  with p show ?thesis by (simp add: path_join_def)
qed

lemma sweep_pre_down:
  assumes "sweep_pre c dir p w" "strict_prefix (path_join dir k) p"
  shows "sweep_pre c (path_join dir k) p w"
proof -
  have "prefix (path_join dir k) q \<Longrightarrow> prefix dir q" for q
    by (metis path_join_def prefix_order.dual_order.trans prefixI)
  with assms show ?thesis unfolding sweep_pre_def by blast
qed

lemma children_entries_ok:
  assumes pre: "sweep_pre c dir p w"
  shows "entries_ok dir p (children w dir) w"
proof -
  from pre have sp: "strict_prefix dir p" and di: "distinct (map fst (files w))"
    and ch: "is_file w p \<longrightarrow> (\<forall>q. prefix dir q \<and> strict_prefix q p \<longrightarrow> is_dir w q)"
    by (simp_all add: sweep_pre_def)
  have cover: "\<lparr>name = p ! length dir, isDirectory = (length dir + 1 < length p)\<rparr> \<in> set (children w dir)"
    if f: "is_file w p"
  proof (cases "length dir + 1 < length p")
    case True
    let ?q = "path_join dir (p ! length dir)"
    from below_child[OF sp True] have "strict_prefix ?q p" .
    moreover have "prefix dir ?q" by (simp add: path_join_def)
    ultimately have "is_dir w ?q" using ch f by blast
    then have "?q \<in> set (dirs w)" by (simp add: is_dir_def)
    moreover have "?q \<noteq> []" "butlast ?q = dir" "last ?q = p ! length dir" by (simp_all add: path_join_def)
    ultimately show ?thesis using True
      by (auto simp add: children_def image_iff intro!: bexI[of _ ?q])
  next
    case False
    from below_leaf[OF sp False] have p: "p = path_join dir (p ! length dir)" .
    then have "p \<noteq> []" "butlast p = dir" "last p = p ! length dir"
      by (metis path_join_def snoc_eq_iff_butlast last_snoc)+
    moreover from f have "p \<in> fst ` set (files w)"
      by (auto simp add: is_file_def map_of_eq_None_iff)
    ultimately show ?thesis using False
      by (auto simp add: children_def image_iff intro!: bexI[of _ p])
  qed
  have files_ok: "\<forall>e \<in> set (children w dir). \<not> isDirectory e \<longrightarrow> is_file w (path_join dir (name e))"
    using children_file_entry by blast
  have "filter (\<lambda>e. \<not> isDirectory e) (children w dir) =
        map (\<lambda>p. \<lparr>name = last p, isDirectory = False\<rparr>)
          (filter (\<lambda>p. p \<noteq> [] \<and> butlast p = dir) (map fst (files w)))"
    by (simp add: children_def filter_map comp_def)
  then have "map name (filter (\<lambda>e. \<not> isDirectory e) (children w dir)) =
        map last (filter (\<lambda>p. p \<noteq> [] \<and> butlast p = dir) (map fst (files w)))"
    by (simp add: comp_def)
  moreover have "distinct (map last (filter (\<lambda>p. p \<noteq> [] \<and> butlast p = dir) (map fst (files w))))"
  proof (rule distinct_map[THEN iffD2], intro conjI)
    show "distinct (filter (\<lambda>p. p \<noteq> [] \<and> butlast p = dir) (map fst (files w)))"
      using di by simp
    show "inj_on last (set (filter (\<lambda>p. p \<noteq> [] \<and> butlast p = dir) (map fst (files w))))"
      by (auto simp add: inj_on_def) (metis append_butlast_last_id)
  qed
  ultimately have "distinct (map name (filter (\<lambda>e. \<not> isDirectory e) (children w dir)))" by simp
  with cover files_ok show ?thesis by (simp add: entries_ok_def)
qed


lemma not_below_sibling: "\<not> strict_prefix (path_join dir k) (path_join dir k')"
  by (auto simp add: path_join_def strict_prefix_def dest: prefix_length_le)

lemma entries_ok_after_directory:
  assumes eo: "entries_ok dir p (entry # entries) w"
    and d: "isDirectory entry"
    and s: "sweep_rel c (path_join dir (name entry)) w w1"
    and g: "length dir + 1 < length p \<and> p ! length dir = name entry \<longrightarrow> map_of (files w1) p = None"
  shows "entries_ok dir p entries w1"
proof -
  let ?cov = "\<lparr>name = p ! length dir, isDirectory = (length dir + 1 < length p)\<rparr>"
  have cover: "?cov \<in> set entries" if f: "is_file w1 p"
  proof -
    from f s have "is_file w p" by (auto simp add: sweep_rel_def is_file_def)
    with eo have "?cov \<in> set (entry # entries)" by (simp add: entries_ok_def)
    moreover have "?cov \<noteq> entry"
    proof
      assume "?cov = entry"
      with d have "length dir + 1 < length p \<and> p ! length dir = name entry" by auto
      with g f show False by (simp add: is_file_def)
    qed
    ultimately show ?thesis by auto
  qed
  have files_ok: "is_file w1 (path_join dir (name e))" if "e \<in> set entries" "\<not> isDirectory e" for e
  proof -
    from eo that have "is_file w (path_join dir (name e))" by (simp add: entries_ok_def)
    from sweep_rel_outside[OF s this not_below_sibling] show ?thesis .
  qed
  from eo d have "distinct (map name (filter (\<lambda>e. \<not> isDirectory e) entries))"
    by (simp add: entries_ok_def)
  with cover files_ok show ?thesis by (simp add: entries_ok_def)
qed

lemma entries_ok_after_file:
  assumes eo: "entries_ok dir p (entry # entries) w"
    and d: "\<not> isDirectory entry"
    and sp: "strict_prefix dir p"
    and pf: "processFile c (path_join dir (name entry)) entry (t, w) = (r, t1, w1)"
    and g: "p = path_join dir (name entry) \<longrightarrow> map_of (files w1) p = None"
  shows "entries_ok dir p entries w1"
proof -
  let ?cov = "\<lparr>name = p ! length dir, isDirectory = (length dir + 1 < length p)\<rparr>"
  from processFile_rel[OF pf] have s: "sweep_rel c dir w w1" .
  have cover: "?cov \<in> set entries" if f: "is_file w1 p"
  proof -
    from f s have "is_file w p" by (auto simp add: sweep_rel_def is_file_def)
    with eo have "?cov \<in> set (entry # entries)" by (simp add: entries_ok_def)
    moreover have "?cov \<noteq> entry"
    proof
      assume c: "?cov = entry"
      with d have "\<not> length dir + 1 < length p" by auto
      from below_leaf[OF sp this] c have "p = path_join dir (name entry)" by auto
      with g f show False by (simp add: is_file_def)
    qed
    ultimately show ?thesis by auto
  qed
  from eo d have dn: "name entry \<notin> name ` set (filter (\<lambda>e. \<not> isDirectory e) entries)"
    and dr: "distinct (map name (filter (\<lambda>e. \<not> isDirectory e) entries))"
    by (simp_all add: entries_ok_def)
  have files_ok: "is_file w1 (path_join dir (name e))" if e: "e \<in> set entries" "\<not> isDirectory e" for e
  proof -
    from eo e have f: "is_file w (path_join dir (name e))" by (simp add: entries_ok_def)
    from e have "name e \<in> name ` set (filter (\<lambda>e. \<not> isDirectory e) entries)" by simp
    with dn have "name e \<noteq> name entry" by metis
    then have "path_join dir (name e) \<noteq> path_join dir (name entry)" by (simp add: path_join_def)
    from processFile_only[OF pf this] f show ?thesis by (simp add: is_file_def)
  qed
  from cover files_ok dr show ?thesis by (simp add: entries_ok_def)
qed

lemma sweep_removes:
  "processDirectory n c dir tw = Some tw' \<Longrightarrow> sweep_pre c dir p (snd tw)
     \<Longrightarrow> map_of (files (snd tw')) p = None"
  "processEntries n c dir es tw = Some res \<Longrightarrow> sweep_pre c dir p (snd tw)
     \<Longrightarrow> entries_ok dir p es (snd tw)
     \<Longrightarrow> fst res = Inr () \<and> map_of (files (snd (snd res))) p = None"
proof (induction n c dir tw and n c dir es tw arbitrary: tw' and res
    rule: processDirectory_processEntries.induct)
  case (1 c dir tw)
  then show ?case by simp
next
  case (2 n c dir tw)
  obtain r1 w1 where rd: "fs_readdir dir (snd tw) = (r1, w1)" by fastforce
  then have w1: "w1 = snd tw" by (auto simp add: fs_readdir_def split: if_splits)
  from "2.prems"(2) have sp: "strict_prefix dir p"
    and ch: "is_file (snd tw) p \<longrightarrow> (\<forall>q. prefix dir q \<and> strict_prefix q p \<longrightarrow> is_dir (snd tw) q)"
    by (simp_all add: sweep_pre_def)
  show ?case
  proof (cases r1)
    case (Inl e)
    with rd have "\<not> is_dir (snd tw) dir" by (auto simp add: fs_readdir_def split: if_splits)
    with ch sp have "\<not> is_file (snd tw) p" by auto
    moreover from Inl rd "2.prems"(1) w1 have "files (snd tw') = files (snd tw)"
      by (auto simp add: log_msg_def)
    ultimately show ?thesis by (simp add: is_file_def)
  next
    case (Inr entries)
    with rd w1 have en: "entries = children (snd tw) dir"
      by (auto simp add: fs_readdir_def split: if_splits)
    with rd Inr "2.prems"(1) obtain r2 t2 w2 where
      pe: "processEntries n c dir entries (fst tw, w1) = Some (r2, t2, w2)"
      by (auto split: option.splits)
    have pre: "sweep_pre c dir p (snd (fst tw, w1))" using "2.prems"(2) w1 by simp
    have eo: "entries_ok dir p entries (snd (fst tw, w1))"
      using children_entries_ok[OF "2.prems"(2)] en w1 by simp
    from "2.IH"[OF rd[symmetric, unfolded Inr] refl pe pre eo]
    have r2: "r2 = Inr ()" and g: "map_of (files w2) p = None" by simp_all
    obtain r3 w3 where 3: "removeDirectoryIfEmpty dir w2 = (r3, w3)" by fastforce
    from removeDirectoryIfEmpty_files[OF 3] have "files w3 = files w2" "r3 = Inr ()" by simp_all
    with rd Inr pe r2 3 "2.prems"(1) g show ?thesis by auto
  qed
next
  case (3 n c dir tw)
  then show ?case
    by (auto simp add: entries_ok_def is_file_def)
next
  case (4 n c dir entry entries tw)
  let ?d = "path_join dir (name entry)"
  from "4.prems"(2) have sp: "strict_prefix dir p"
    and ex: "\<forall>f. map_of (files (snd tw)) p = Some f \<longrightarrow> expired_at c (now (snd tw)) (mtime f)"
    and ext: "endsWith (last p) ''.data'' \<or> endsWith (last p) ''.meta''"
    and nr: "p \<notin> set (refused (snd tw))"
    by (simp_all add: sweep_pre_def)
  show ?case
  proof (cases "isDirectory entry")
    case True
    with "4.prems"(1) obtain tw1 where pd: "processDirectory n c ?d tw = Some tw1"
      and pe: "processEntries n c dir entries tw1 = Some res"
      by (auto simp add: Let_def split: option.splits)
    from sweep_invariant(1)[OF pd] have s: "sweep_rel c ?d (snd tw) (snd tw1)" .
    have g: "length dir + 1 < length p \<and> p ! length dir = name entry
               \<longrightarrow> map_of (files (snd tw1)) p = None"
    proof
      assume a: "length dir + 1 < length p \<and> p ! length dir = name entry"
      with below_child[OF sp] have "strict_prefix ?d p" by auto
      from sweep_pre_down[OF "4.prems"(2) this] have "sweep_pre c ?d p (snd tw)" .
      from "4.IH"(1)[OF refl True pd this] show "map_of (files (snd tw1)) p = None" .
    qed
    from entries_ok_after_directory[OF "4.prems"(3) True s g]
    have eo: "entries_ok dir p entries (snd tw1)" .
    from sweep_pre_step[OF s "4.prems"(2)] have pre: "sweep_pre c dir p (snd tw1)" .
    from "4.IH"(2)[OF refl True pd pe pre eo] show ?thesis .
  next
    case False
    obtain r1 t1 w1 where pf: "processFile c ?d entry tw = (r1, t1, w1)" by (metis prod_cases3)
    then have pf2: "processFile c ?d entry (fst tw, snd tw) = (r1, t1, w1)" by simp
    from "4.prems"(3) False have "is_file (snd tw) ?d" by (simp add: entries_ok_def)
    from processFile_Inr[OF pf2 this] have r1: "r1 = Inr ()" .
    with pf False "4.prems"(1) have pe: "processEntries n c dir entries (t1, w1) = Some res"
      by (auto simp add: Let_def)
    from processFile_rel[OF pf2] have s: "sweep_rel c dir (snd tw) w1" .
    have g: "p = ?d \<longrightarrow> map_of (files w1) p = None"
    proof
      assume p: "p = ?d"
      then have "last p = name entry" by (simp add: path_join_def)
      with ext have "endsWith (name entry) ''.data'' \<or> endsWith (name entry) ''.meta''" by simp
      from processFile_removes[OF pf2 _ this] ex nr p show "map_of (files w1) p = None" by simp
    qed
    from entries_ok_after_file[OF "4.prems"(3) False sp pf2 g]
    have eo: "entries_ok dir p entries (snd (t1, w1))" by simp
    from sweep_pre_step[OF s "4.prems"(2)] have pre: "sweep_pre c dir p (snd (t1, w1))" by simp
    from pf r1 have pf': "(Inr (), (t1, w1)) = processFile c ?d entry tw" by simp
    from "4.IH"(3)[OF refl False pf' refl pe pre eo] show ?thesis .
  qed
qed

section \<open>The sweep and the two files of an entry\<close>

lemma sweep_pre_logs [simp]: "sweep_pre c d p (w\<lparr>logs := l\<rparr>) = sweep_pre c d p w"
  by (simp add: sweep_pre_def is_file_def is_dir_def)

lemma cleanUp_removes:
  assumes "cleanUpCacheDirectory n c d w = Some (t, w')" and "sweep_pre c d p w"
  shows "map_of (files w') p = None"
proof -
  let ?t0 = "\<lparr>totalRemovedFiles = 0, totalRemovedSize = 0, totalTimersCreated = 0\<rparr>"
  let ?w1 = "w\<lparr>logs := logs w @ [RemovingExpired]\<rparr>"
  from assms(1) obtain w2 where pd: "processDirectory n c d (?t0, ?w1) = Some (t, w2)"
    and w': "files w' = files w2"
    by (auto simp add: cleanUpCacheDirectory_def log_msg_def split: option.splits)
  from assms(2) have "sweep_pre c d p (snd (?t0, ?w1))" by simp
  from sweep_removes(1)[OF pd this] w' show ?thesis by simp
qed

lemma endsWith_append [simp]: "endsWith (h @ e) e"
  by (simp add: endsWith_def)

lemma entry_sweep_pre:
  assumes f: "f = filenameForUrl L c u"
    and e: "e = ''.data'' \<or> e = ''.meta''"
    and di: "distinct (map fst (files w))"
    and ex: "file_expired c w (add_ext f e)"
    and nr: "add_ext f e \<notin> set (refused w)"
    and d1: "is_dir w (cachePath c)" and d2: "is_dir w (dirname f)"
  shows "sweep_pre c (cachePath c) (add_ext f e) w"
proof -
  let ?r = "cachePath c"
  let ?h = "urlHash L u"
  have p: "add_ext f e = ?r @ [take 2 ?h, ?h @ e]"
    by (simp add: f filenameForUrl_def Let_def add_ext_join) (simp add: path_join_def)
  have dn: "dirname f = ?r @ [take 2 ?h]"
    by (simp add: f filenameForUrl_def Let_def dirname_join) (simp add: path_join_def)
  have sp: "strict_prefix ?r (add_ext f e)" by (simp add: p strict_prefix_def)
  have ext: "endsWith (last (add_ext f e)) ''.data'' \<or> endsWith (last (add_ext f e)) ''.meta''"
    using e by (auto simp add: p)
  have ch: "is_dir w q" if "prefix ?r q \<and> strict_prefix q (add_ext f e)" for q
  proof -
    from that obtain zs where q: "q = ?r @ zs" by (auto simp add: prefix_def)
    with that have "strict_prefix zs [take 2 ?h, ?h @ e]" by (auto simp add: p strict_prefix_def)
    then have "zs = [] \<or> zs = [take 2 ?h]"
      by (cases zs) (auto simp add: strict_prefix_def prefix_Cons)
    with q d1 d2 dn show ?thesis by auto
  qed
  from ex have "\<forall>g. map_of (files w) (add_ext f e) = Some g \<longrightarrow> expired_at c (now w) (mtime g)"
    by (auto simp add: file_expired_def)
  with di sp ext nr ch show ?thesis unfolding sweep_pre_def by blast
qed

lemma removeExpiredCacheUrl_removes:
  assumes "both_files w (filenameForUrl L c u)" "removable w (filenameForUrl L c u)"
  shows "files (snd (removeExpiredCacheUrl L c u w)) =
           AList.delete (add_ext (filenameForUrl L c u) ''.meta'')
             (AList.delete (add_ext (filenameForUrl L c u) ''.data'') (files w))"
proof -
  let ?f = "filenameForUrl L c u"
  let ?w1 = "w\<lparr>files := AList.delete (add_ext ?f ''.data'') (files w)\<rparr>"
  let ?w2 = "?w1\<lparr>files := AList.delete (add_ext ?f ''.meta'') (files ?w1)\<rparr>"
  have 1: "fs_unlink (add_ext ?f ''.data'') w = (Inr (), ?w1)"
    using assms by (simp add: fs_unlink_def both_files_def removable_def)
  have "is_file ?w1 (add_ext ?f ''.meta'')"
    using assms(1) data_neq_meta[of L c u] by (simp add: both_files_def is_file_def delete_conv')
  then have 2: "fs_unlink (add_ext ?f ''.meta'') ?w1 = (Inr (), ?w2)"
    using assms(2) by (simp add: fs_unlink_def removable_def)
  obtain r3 w3 where 3: "removeDirectoryIfEmpty (dirname ?f) ?w2 = (r3, w3)" by fastforce
  from removeDirectoryIfEmpty_files[OF 3] have "files w3 = files ?w2" "r3 = Inr ()" by simp_all
  with 1 2 3 show ?thesis
    by (simp add: removeExpiredCacheUrl_def Let_def try_catch_def await_def)
qed

section \<open>The two files of an entry, together\<close>

lemma restarted_world_eq:
  \<open>restarted_world =
    \<lparr>files =
       [(add_ext sample_file ''.data'', \<lparr>data = CHR 0x1F # CHR 0x8B # ''hi'', mtime = 1000000\<rparr>),
        (add_ext sample_file ''.meta'',
         \<lparr>data = ''{"statusCode":200,"headers":{"content-type":"text/html"}}'', mtime = 1000005\<rparr>)],
     dirs = [[], [''tmp''], [''tmp'', ''prerender-cache''], [''tmp'', ''prerender-cache'', ''f7'']],
     refused = [], dir_mtime = (\<lambda>_. 0), now = 87400002, write_ms = 5,
     timers = [], logs = []\<rparr>\<close>
  by (simp add: restarted_world_def cached_world_eq)

lemma sample_paths:
  "add_ext sample_file ''.data'' =
     [''tmp'', ''prerender-cache'', ''f7'', ''f7651fae28a41b7d0af3dd8d1af2c3954c097043.data'']"
  "add_ext sample_file ''.meta'' =
     [''tmp'', ''prerender-cache'', ''f7'', ''f7651fae28a41b7d0af3dd8d1af2c3954c097043.meta'']"
  by (simp_all add: sample_file_def add_ext_def)

text \<open>
  C7, as stated, fails on the tree sweep. \<^verbatim>\<open>set\<close> writes \<^verbatim>\<open>.data\<close> and then \<^verbatim>\<open>.meta\<close>, 5 ms
  apart in the sample. The process starts again 86400.002 s after the first write: its
  sweep looks at each file's own modification time, finds \<^verbatim>\<open>.data\<close> expired and \<^verbatim>\<open>.meta\<close>
  not, removes the one and puts a timer on the other. Of the pair, \<^verbatim>\<open>.meta\<close> alone is
  left in the cache.
\<close>

theorem sweep_leaves_meta_alone:
  "both_files restarted_world sample_file \<and>
   map_option (map fst \<circ> files \<circ> snd)
     (cleanUpCacheDirectory 3 sample_cache (cachePath sample_cache) restarted_world)
     = Some [add_ext sample_file ''.meta'']"
proof -
  have 1: "both_files restarted_world sample_file"
    by (simp add: both_files_def is_file_def restarted_world_eq)
  have 2: "map_option (map fst \<circ> files \<circ> snd)
     (cleanUpCacheDirectory 3 sample_cache (cachePath sample_cache) restarted_world)
     = Some [add_ext sample_file ''.meta'']"
    by code_simp
  from 1 2 show ?thesis by simp
qed


text \<open>
  C7, amended. Where the file system refuses nothing, \<^verbatim>\<open>set\<close> leaves both files of the
  entry in place, and \<^verbatim>\<open>get\<close> on an expired entry and \<^verbatim>\<open>removeExpiredCacheUrl\<close> leave
  neither, when both were there. The tree sweep always returns (given a bound beyond the
  depth of the tree) and goes by each file's own modification time: it keeps both files
  when neither is expired; on a cache whose root and shard directory exist it removes
  both when both are expired, and when only \<^verbatim>\<open>.data\<close> is expired it removes \<^verbatim>\<open>.data\<close> and
  keeps \<^verbatim>\<open>.meta\<close>.
\<close>

theorem entry_files_together:
  assumes f: "f = filenameForUrl L c u"
  shows
   "(storable w f \<longrightarrow> both_files (snd (set_entry L c u sc hs v w)) f) \<and>
    (both_files w f \<and> removable w f \<and> file_expired c w (add_ext f ''.meta'')
       \<longrightarrow> no_files (snd (get L c u w)) f) \<and>
    (both_files w f \<and> removable w f \<longrightarrow> no_files (snd (removeExpiredCacheUrl L c u w)) f) \<and>
    (enough n w \<longrightarrow>
       cleanUpCacheDirectory n c (cachePath c) w \<noteq> None \<and>
       (both_files w f \<and> \<not> file_expired c w (add_ext f ''.data'')
          \<and> \<not> file_expired c w (add_ext f ''.meta'')
          \<longrightarrow> both_files (snd (the (cleanUpCacheDirectory n c (cachePath c) w))) f) \<and>
       (both_files w f \<and> removable w f \<and> distinct (map fst (files w))
          \<and> is_dir w (cachePath c) \<and> is_dir w (dirname f)
          \<longrightarrow> (file_expired c w (add_ext f ''.data'') \<and> file_expired c w (add_ext f ''.meta'')
                \<longrightarrow> no_files (snd (the (cleanUpCacheDirectory n c (cachePath c) w))) f)
            \<and> (file_expired c w (add_ext f ''.data'') \<and> \<not> file_expired c w (add_ext f ''.meta'')
                \<longrightarrow> \<not> is_file (snd (the (cleanUpCacheDirectory n c (cachePath c) w)))
                         (add_ext f ''.data'')
                  \<and> is_file (snd (the (cleanUpCacheDirectory n c (cachePath c) w)))
                         (add_ext f ''.meta''))))"
proof (intro conjI impI)
  assume "storable w f"
  then show "both_files (snd (set_entry L c u sc hs v w)) f"
    using set_entry_files(1,2)[of w L c u sc hs v] by (simp add: f both_files_def is_file_def)
next
  assume a: "both_files w f \<and> removable w f \<and> file_expired c w (add_ext f ''.meta'')"
  then obtain fm where m: "map_of (files w) (add_ext (filenameForUrl L c u) ''.meta'') = Some fm"
    and ex: "expired_at c (now w) (mtime fm)"
    by (auto simp add: f file_expired_def split: option.splits)
  from a have "is_file w (add_ext (filenameForUrl L c u) ''.data'')"
    "add_ext (filenameForUrl L c u) ''.data'' \<notin> set (refused w)"
    "add_ext (filenameForUrl L c u) ''.meta'' \<notin> set (refused w)"
    by (simp_all add: f both_files_def removable_def)
  from get_expired_removes[OF m ex this] show "no_files (snd (get L c u w)) f"
    by (simp add: f no_files_def is_file_def delete_conv')
next
  assume "both_files w f \<and> removable w f"
  then show "no_files (snd (removeExpiredCacheUrl L c u w)) f"
    using removeExpiredCacheUrl_removes[of w L c u]
    by (simp add: f no_files_def is_file_def delete_conv')
next
  assume en: "enough n w"
  from cleanUp_returns[OF en, of c "cachePath c"] obtain t w' where
    cu: "cleanUpCacheDirectory n c (cachePath c) w = Some (t, w')"
    and s: "sweep_rel c (cachePath c) w w'" by blast
  show "cleanUpCacheDirectory n c (cachePath c) w \<noteq> None" by (simp add: cu)
  {
    assume a: "both_files w f \<and> \<not> file_expired c w (add_ext f ''.data'')
          \<and> \<not> file_expired c w (add_ext f ''.meta'')"
    then obtain fd fm where "map_of (files w) (add_ext f ''.data'') = Some fd"
      "\<not> expired_at c (now w) (mtime fd)"
      "map_of (files w) (add_ext f ''.meta'') = Some fm" "\<not> expired_at c (now w) (mtime fm)"
      by (auto simp add: both_files_def is_file_def file_expired_def)
    with s have "map_of (files w') (add_ext f ''.data'') = Some fd"
      "map_of (files w') (add_ext f ''.meta'') = Some fm"
      using sweep_rel_keeps by blast+
    then show "both_files (snd (the (cleanUpCacheDirectory n c (cachePath c) w))) f"
      by (simp add: cu both_files_def is_file_def)
  }
  {
    assume a: "both_files w f \<and> removable w f \<and> distinct (map fst (files w))
          \<and> is_dir w (cachePath c) \<and> is_dir w (dirname f)"
    {
      assume b: "file_expired c w (add_ext f ''.data'') \<and> file_expired c w (add_ext f ''.meta'')"
      from a b have "sweep_pre c (cachePath c) (add_ext f ''.data'') w"
        "sweep_pre c (cachePath c) (add_ext f ''.meta'') w"
        using entry_sweep_pre[OF f, of _ w] by (simp_all add: removable_def)
      from this[THEN cleanUp_removes[OF cu]]
      show "no_files (snd (the (cleanUpCacheDirectory n c (cachePath c) w))) f"
        by (simp add: cu no_files_def is_file_def)
    }
    {
      assume b: "file_expired c w (add_ext f ''.data'') \<and> \<not> file_expired c w (add_ext f ''.meta'')"
      from a b have "sweep_pre c (cachePath c) (add_ext f ''.data'') w"
        using entry_sweep_pre[OF f, of "''.data''" w] by (simp add: removable_def)
      from cleanUp_removes[OF cu this]
      show "\<not> is_file (snd (the (cleanUpCacheDirectory n c (cachePath c) w))) (add_ext f ''.data'')"
        by (simp add: cu is_file_def)
      from a b obtain fm where "map_of (files w) (add_ext f ''.meta'') = Some fm"
        "\<not> expired_at c (now w) (mtime fm)"
        by (auto simp add: both_files_def is_file_def file_expired_def)
      from sweep_rel_keeps[OF s this]
      show "is_file (snd (the (cleanUpCacheDirectory n c (cachePath c) w))) (add_ext f ''.meta'')"
        by (simp add: cu is_file_def)
    }
  }
qed


text \<open>
  The sample entry: written by \<^verbatim>\<open>set\<close>, removed by \<^verbatim>\<open>get\<close> once stale and by
  \<^verbatim>\<open>removeExpiredCacheUrl\<close>, kept whole by a sweep while fresh and removed whole by a sweep
  once both files are stale.
\<close>

lemma sample_world_facts:
  "both_files cached_world sample_file" "both_files stale_world sample_file"
  "removable cached_world sample_file" "removable stale_world sample_file"
  "enough 4 cached_world" "enough 4 stale_world"
  "distinct (map fst (files stale_world))"
  "is_dir stale_world (cachePath sample_cache)" "is_dir stale_world (dirname sample_file)"
  "file_expired sample_cache stale_world (add_ext sample_file ''.data'')"
  "file_expired sample_cache stale_world (add_ext sample_file ''.meta'')"
  "\<not> file_expired sample_cache cached_world (add_ext sample_file ''.data'')"
  "\<not> file_expired sample_cache cached_world (add_ext sample_file ''.meta'')"
  by (simp_all add: both_files_def removable_def enough_def is_file_def is_dir_def file_expired_def
      expired_at_def stale_world_def cached_world_eq sample_paths sample_cache_def)
    (simp_all add: sample_file_def dirname_def)

theorem entry_files_together_witness:
  "both_files (snd (set_entry sample_lib sample_cache ''http://a'' 200 sample_headers ''hi'' empty_world))
     sample_file \<and>
   no_files (snd (get sample_lib sample_cache ''http://a'' stale_world)) sample_file \<and>
   no_files (snd (removeExpiredCacheUrl sample_lib sample_cache ''http://a'' cached_world)) sample_file \<and>
   both_files (snd (the (cleanUpCacheDirectory 4 sample_cache (cachePath sample_cache) cached_world)))
     sample_file \<and>
   no_files (snd (the (cleanUpCacheDirectory 4 sample_cache (cachePath sample_cache) stale_world)))
     sample_file"
proof -
  note f = sample_filename[symmetric]
  have 1: "both_files (snd (set_entry sample_lib sample_cache ''http://a'' 200 sample_headers ''hi''
             empty_world)) sample_file"
    using entry_files_together[OF f, where w = empty_world and sc = 200 and hs = sample_headers
        and v = "''hi''"] storable_empty_world
    by blast
  have 2: "no_files (snd (get sample_lib sample_cache ''http://a'' stale_world)) sample_file"
    using entry_files_together[OF f, where w = stale_world] sample_world_facts
    by blast
  have 3: "no_files (snd (removeExpiredCacheUrl sample_lib sample_cache ''http://a'' cached_world))
             sample_file"
    using entry_files_together[OF f, where w = cached_world] sample_world_facts
    by blast
  have 4: "both_files (snd (the (cleanUpCacheDirectory 4 sample_cache (cachePath sample_cache)
             cached_world))) sample_file"
    using entry_files_together[OF f, where w = cached_world and n = 4] sample_world_facts
    by blast
  have 5: "no_files (snd (the (cleanUpCacheDirectory 4 sample_cache (cachePath sample_cache)
             stale_world))) sample_file"
    using entry_files_together[OF f, where w = stale_world and n = 4] sample_world_facts
    by blast
  from 1 2 3 4 5 show ?thesis by simp
qed

end
